theory Spec2Isabelle
  imports Main "HOL-Library.Word"
begin

section \<open>Library functions called by the package\<close>

text \<open>
  The package \<^verbatim>\<open>queryparams\<close> (file \<^verbatim>\<open>queryparams.go\<close>) converts between a struct and
  \<^verbatim>\<open>url.Values\<close>. It calls \<^verbatim>\<open>strings\<close>, \<^verbatim>\<open>strconv\<close>, \<^verbatim>\<open>time\<close>, \<^verbatim>\<open>net/url\<close> and
  \<^verbatim>\<open>reflect\<close> of the Go standard library. This section models the library functions it
  calls; the package's own functions follow in the next sections.
  A Go string is a sequence of bytes: \<open>string\<close> (a list of 8-bit \<open>char\<close>).
\<close>

subsection \<open>Errors\<close>

datatype numerr = ErrSyntax | ErrRange

datatype error =
    NotStruct string              \<comment> \<open>\<^verbatim>\<open>fmt.Errorf("expected struct but got %v", v.Type())\<close>\<close>
  | EnforcePtrError               \<comment> \<open>the error of \<^verbatim>\<open>ptr.EnforcePtr\<close>\<close>
  | UnsupportedType string        \<comment> \<open>\<^verbatim>\<open>fmt.Errorf("unsupported type %s", v.Kind())\<close>\<close>
  | UnsupportedKind string        \<comment> \<open>\<^verbatim>\<open>fmt.Errorf("unsupported kind %s", v.Kind())\<close>\<close>
  | NumError string string numerr \<comment> \<open>\<^verbatim>\<open>&strconv.NumError{Func, Num, Err}\<close>\<close>
  | TimeParseError string         \<comment> \<open>\<^verbatim>\<open>&time.ParseError{...}\<close> for the given text\<close>
  | UserError string              \<comment> \<open>an error returned by a user-defined method\<close>
  | FieldError string error       \<comment> \<open>\<^verbatim>\<open>fmt.Errorf("field %q: %w", name, err)\<close>\<close>
  | Panic string                  \<comment> \<open>a run-time panic\<close>

subsection \<open>strings\<close>

text \<open>
  \<^verbatim>\<open>strings.ToLower\<close>, for ASCII text: each byte \<^verbatim>\<open>'A'..'Z'\<close> is moved by
  \<^verbatim>\<open>'a' - 'A'\<close>. Bytes from \<^verbatim>\<open>0x80\<close> on are left as they are here; Go maps them rune by
  rune through the Unicode tables, which are not modelled.
\<close>

definition lower :: "char \<Rightarrow> char" where
  "lower c = (if 65 \<le> (of_char c :: nat) \<and> (of_char c :: nat) \<le> 90
              then char_of ((of_char c :: nat) + 32) else c)"

definition ToLower :: "string \<Rightarrow> string" where
  "ToLower s = map lower s"

text \<open>\<^verbatim>\<open>strings.Split(s, sep)\<close> for a one-byte separator: never an empty result.\<close>

fun Split :: "string \<Rightarrow> char \<Rightarrow> string list" where
  "Split [] sep = [[]]"
| "Split (c # cs) sep =
     (if c = sep then [] # Split cs sep
      else (case Split cs sep of [] \<Rightarrow> [[c]] | p # ps \<Rightarrow> (c # p) # ps))"

subsection \<open>strconv\<close>

definition isDigit :: "char \<Rightarrow> bool" where
  "isDigit c = (48 \<le> (of_char c :: nat) \<and> (of_char c :: nat) \<le> 57)"

definition digitVal :: "char \<Rightarrow> nat" where
  "digitVal c = (of_char c :: nat) - 48"

definition digitChar :: "nat \<Rightarrow> char" where
  "digitChar d = char_of (48 + d)"

text \<open>The decimal digits of an unsigned number, most significant first.\<close>

fun digits :: "nat \<Rightarrow> string" where
  "digits n = (if n < 10 then [digitChar n] else digits (n div 10) @ [digitChar (n mod 10)])"

declare digits.simps [simp del]

text \<open>\<^verbatim>\<open>strconv.FormatUint(u, 10)\<close> and \<^verbatim>\<open>strconv.FormatInt(i, 10)\<close>.\<close>

definition FormatUint :: "nat \<Rightarrow> string" where
  "FormatUint u = digits u"

definition FormatInt :: "int \<Rightarrow> string" where
  "FormatInt i = (if i < 0 then CHR ''-'' # digits (nat (- i)) else digits (nat i))"

definition FormatBool :: "bool \<Rightarrow> string" where
  "FormatBool b = (if b then ''true'' else ''false'')"

text \<open>
  The digit loop of \<^verbatim>\<open>strconv.ParseUint\<close> in base 10: a byte that is not a digit is a
  syntax error, a value above \<open>maxVal\<close> a range error, whichever comes first from the
  left. (Go tests \<^verbatim>\<open>n >= cutoff\<close> before the multiplication and \<^verbatim>\<open>n1 < n || n1 > maxVal\<close>
  after the addition, which on unbounded numbers is \<open>n * 10 + d > maxVal\<close>.)
\<close>

fun parseDigits :: "nat \<Rightarrow> nat \<Rightarrow> string \<Rightarrow> numerr + nat" where
  "parseDigits maxVal n [] = Inr n"
| "parseDigits maxVal n (c # cs) =
     (if \<not> isDigit c then Inl ErrSyntax
      else if n * 10 + digitVal c > maxVal then Inl ErrRange
      else parseDigits maxVal (n * 10 + digitVal c) cs)"

definition ParseUint :: "string \<Rightarrow> nat \<Rightarrow> error + nat" where
  "ParseUint s bitSize =
     (if s = [] then Inl (NumError ''ParseUint'' s ErrSyntax)
      else (case parseDigits (2 ^ bitSize - 1) 0 s of
              Inl e \<Rightarrow> Inl (NumError ''ParseUint'' s e)
            | Inr n \<Rightarrow> Inr n))"

text \<open>
  \<^verbatim>\<open>strconv.ParseInt(s, 10, bitSize)\<close>: an optional sign, then \<^verbatim>\<open>ParseUint\<close> on the
  rest; a range error of \<^verbatim>\<open>ParseUint\<close> leaves \<^verbatim>\<open>un\<close> at the maximum, which the cutoff
  test turns into the range error of \<^verbatim>\<open>ParseInt\<close>.
\<close>

definition ParseInt :: "string \<Rightarrow> nat \<Rightarrow> error + int" where
  "ParseInt s0 bitSize =
     (if s0 = [] then Inl (NumError ''ParseInt'' s0 ErrSyntax)
      else
        let neg = (hd s0 = CHR ''-'');
            s = (if hd s0 = CHR ''+'' \<or> hd s0 = CHR ''-'' then tl s0 else s0);
            cutoff = (2::nat) ^ (bitSize - 1)
        in if s = [] then Inl (NumError ''ParseInt'' s0 ErrSyntax)
           else (case parseDigits (2 ^ bitSize - 1) 0 s of
                   Inl ErrSyntax \<Rightarrow> Inl (NumError ''ParseInt'' s0 ErrSyntax)
                 | Inl ErrRange \<Rightarrow> Inl (NumError ''ParseInt'' s0 ErrRange)
                 | Inr un \<Rightarrow>
                     if \<not> neg \<and> un \<ge> cutoff then Inl (NumError ''ParseInt'' s0 ErrRange)
                     else if neg \<and> un > cutoff then Inl (NumError ''ParseInt'' s0 ErrRange)
                     else Inr (if neg then - int un else int un)))"

text \<open>\<^verbatim>\<open>strconv.ParseBool\<close>.\<close>

definition ParseBool :: "string \<Rightarrow> error + bool" where
  "ParseBool str =
     (if str \<in> set [''1'', ''t'', ''T'', ''TRUE'', ''true'', ''True''] then Inr True
      else if str \<in> set [''0'', ''f'', ''F'', ''FALSE'', ''false'', ''False''] then Inr False
      else Inl (NumError ''ParseBool'' str ErrSyntax))"

text \<open>
  Floating point is not modelled. A float value is carried as its IEEE 754 bit pattern
  (\<^verbatim>\<open>math.Float64bits(v.Float())\<close>), and the two library functions on it are parameters
  of the model: \<open>FormatFloat lib x\<close> is \<^verbatim>\<open>strconv.FormatFloat(x, 'f', -1, 64)\<close> and
  \<open>ParseFloat lib s bits\<close> is \<^verbatim>\<open>strconv.ParseFloat(s, bits)\<close>.
\<close>

record strconv =
  FormatFloat :: "64 word \<Rightarrow> string"
  ParseFloat :: "string \<Rightarrow> nat \<Rightarrow> error + 64 word"

subsection \<open>time\<close>

text \<open>
  A \<^verbatim>\<open>time.Time\<close> is modelled by what its formatting reads: the calendar date and the
  clock in the value's own zone, the nanosecond within the second, and the zone's
  offset in seconds east of UTC. The zone is modelled by its offset alone.
\<close>

record Time =
  year :: int
  month :: nat
  day :: nat
  hour :: nat
  minute :: nat
  second :: nat
  nsec :: nat
  offset :: int

text \<open>The zero \<^verbatim>\<open>time.Time{}\<close>: January 1, year 1, 00:00:00 UTC.\<close>

definition zeroTime :: Time where
  "zeroTime = \<lparr>year = 1, month = 1, day = 1, hour = 0, minute = 0, second = 0,
               nsec = 0, offset = 0\<rparr>"

text \<open>\<^verbatim>\<open>appendInt(b, x, width)\<close> of package time: a sign, zero padding, the digits.\<close>

definition appendInt :: "int \<Rightarrow> nat \<Rightarrow> string" where
  "appendInt x width =
     (if x < 0 then ''-'' else '''')
     @ replicate (width - length (digits (nat \<bar>x\<bar>))) (CHR ''0'')
     @ digits (nat \<bar>x\<bar>)"

text \<open>
  \<^verbatim>\<open>t.Format(time.RFC3339)\<close>, the layout \<^verbatim>\<open>"2006-01-02T15:04:05Z07:00"\<close>. The layout has
  no fractional-second field, so \<open>nsec\<close> is not read. The zone is \<^verbatim>\<open>Z\<close> for offset 0,
  else the offset in whole minutes (Go's \<^verbatim>\<open>offset / 60\<close> truncates towards zero).
\<close>

definition formatZone :: "int \<Rightarrow> string" where
  "formatZone off =
     (if off = 0 then ''Z''
      else
        let zone = (if off < 0 then - ((- off) div 60) else off div 60)
        in (if zone < 0 then ''-'' else ''+'')
           @ appendInt (\<bar>zone\<bar> div 60) 2 @ '':'' @ appendInt (\<bar>zone\<bar> mod 60) 2)"

definition Format_RFC3339 :: "Time \<Rightarrow> string" where
  "Format_RFC3339 t =
     appendInt (year t) 4 @ ''-'' @ appendInt (int (month t)) 2 @ ''-''
     @ appendInt (int (day t)) 2 @ ''T'' @ appendInt (int (hour t)) 2 @ '':''
     @ appendInt (int (minute t)) 2 @ '':'' @ appendInt (int (second t)) 2
     @ formatZone (offset t)"

definition isLeap :: "nat \<Rightarrow> bool" where
  "isLeap y = (y mod 4 = 0 \<and> (y mod 100 \<noteq> 0 \<or> y mod 400 = 0))"

definition daysIn :: "nat \<Rightarrow> nat \<Rightarrow> nat" where
  "daysIn m y =
     (if m = 2 then (if isLeap y then 29 else 28)
      else if m \<in> set [4, 6, 9, 11] then 30 else 31)"

text \<open>
  The local \<^verbatim>\<open>parseUint\<close> of \<^verbatim>\<open>parseRFC3339\<close>: all bytes are digits and the number is
  within \<open>[lo, hi]\<close>.
\<close>

definition rangeUint :: "string \<Rightarrow> nat \<Rightarrow> nat \<Rightarrow> nat option" where
  "rangeUint s lo hi =
     (if list_all isDigit s
      then (let x = foldl (\<lambda>x c. x * 10 + digitVal c) 0 s
            in if lo \<le> x \<and> x \<le> hi then Some x else None)
      else None)"

text \<open>
  \<^verbatim>\<open>parseNanoseconds\<close> on the fraction's digits (the text after the period): at most
  nine digits count, scaled to nanoseconds.
\<close>

definition parseNanoseconds :: "string \<Rightarrow> nat" where
  "parseNanoseconds ds =
     foldl (\<lambda>x c. x * 10 + digitVal c) 0 (take 9 ds) * 10 ^ (9 - length (take 9 ds))"

definition parseZone :: "string \<Rightarrow> int option" where
  "parseZone s =
     (if s = ''Z'' then Some 0
      else if length s \<noteq> 6 then None
      else (case (rangeUint (take 2 (drop 1 s)) 0 23, rangeUint (take 2 (drop 4 s)) 0 59) of
              (Some hr, Some mm) \<Rightarrow>
                if (s ! 0 = CHR ''-'' \<or> s ! 0 = CHR ''+'') \<and> s ! 3 = CHR '':''
                then Some (if s ! 0 = CHR ''-'' then - int ((hr * 60 + mm) * 60)
                           else int ((hr * 60 + mm) * 60))
                else None
            | _ \<Rightarrow> None))"

text \<open>
  \<^verbatim>\<open>time.Parse(time.RFC3339, s)\<close>, as its strict path \<^verbatim>\<open>parseRFC3339\<close> reads the text:
  fixed-width date and clock, an optional fraction of a second, then \<^verbatim>\<open>Z\<close> or
  \<^verbatim>\<open>+hh:mm\<close> / \<^verbatim>\<open>-hh:mm\<close>. Text this path refuses is a parse error here (Go then
  retries with its general layout parser, which accepts a few more spellings).
\<close>

definition Parse_RFC3339 :: "string \<Rightarrow> error + Time" where
  "Parse_RFC3339 s =
     (if length s < 19 then Inl (TimeParseError s)
      else
        (case rangeUint (take 4 s) 0 9999 of None \<Rightarrow> Inl (TimeParseError s) | Some y \<Rightarrow>
        (case rangeUint (take 2 (drop 5 s)) 1 12 of None \<Rightarrow> Inl (TimeParseError s) | Some mo \<Rightarrow>
        (case rangeUint (take 2 (drop 8 s)) 1 (daysIn mo y) of None \<Rightarrow> Inl (TimeParseError s) | Some d \<Rightarrow>
        (case rangeUint (take 2 (drop 11 s)) 0 23 of None \<Rightarrow> Inl (TimeParseError s) | Some h \<Rightarrow>
        (case rangeUint (take 2 (drop 14 s)) 0 59 of None \<Rightarrow> Inl (TimeParseError s) | Some mi \<Rightarrow>
        (case rangeUint (take 2 (drop 17 s)) 0 59 of None \<Rightarrow> Inl (TimeParseError s) | Some sc \<Rightarrow>
          if \<not> (s ! 4 = CHR ''-'' \<and> s ! 7 = CHR ''-'' \<and> s ! 10 = CHR ''T''
                 \<and> s ! 13 = CHR '':'' \<and> s ! 16 = CHR '':'')
          then Inl (TimeParseError s)
          else
            let r = drop 19 s;
                frac = (if length r \<ge> 2 \<and> r ! 0 = CHR ''.'' \<and> isDigit (r ! 1)
                        then takeWhile isDigit (drop 1 r) else []);
                ns = (if frac = [] then 0 else parseNanoseconds frac);
                z = (if frac = [] then r else drop (1 + length frac) r)
            in (case parseZone z of
                  None \<Rightarrow> Inl (TimeParseError s)
                | Some off \<Rightarrow>
                    Inr \<lparr>year = int y, month = mo, day = d, hour = h, minute = mi,
                         second = sc, nsec = ns, offset = off\<rparr>))))))))"

section \<open>The data model\<close>

subsection \<open>Values and types as reflection shows them\<close>

text \<open>
  A type, as far as the package looks at it: its kind, for a number its width in bits
  (\<^verbatim>\<open>v.Type().Bits()\<close>), for a slice its element type. \<open>TOther k\<close> is a type of any other
  kind, \<open>k\<close> being the kind's name as \<^verbatim>\<open>%s\<close> prints it (\<^verbatim>\<open>map\<close>, \<^verbatim>\<open>ptr\<close>, \<^verbatim>\<open>struct\<close>, ...).
\<close>

datatype ty = TString | TInt nat | TUint nat | TFloat nat | TBool | TTime | TSlice ty
  | TOther string

text \<open>
  A value with its type. A nil slice and a non-nil slice are told apart, as
  \<^verbatim>\<open>reflect.Value.IsZero\<close> does. \<open>VOther k z\<close> is a value of another kind, \<open>z\<close> saying
  whether it is the zero value of its type.
\<close>

datatype val =
    VString string
  | VInt nat int
  | VUint nat nat
  | VFloat nat "64 word"
  | VBool bool
  | VTime Time
  | VNil ty
  | VSlice ty "val list"
  | VOther string bool


text \<open>The zero value of a type: \<^verbatim>\<open>reflect.New(t).Elem()\<close>, and the fields of a fresh struct.\<close>

fun Zero :: "ty \<Rightarrow> val" where
  "Zero TString = VString []"
| "Zero (TInt b) = VInt b 0"
| "Zero (TUint b) = VUint b 0"
| "Zero (TFloat b) = VFloat b 0"
| "Zero TBool = VBool False"
| "Zero TTime = VTime zeroTime"
| "Zero (TSlice e) = VNil e"
| "Zero (TOther k) = VOther k True"

text \<open>\<^verbatim>\<open>v.Kind()\<close>, by name.\<close>

fun Kind :: "val \<Rightarrow> string" where
  "Kind (VString s) = ''string''"
| "Kind (VInt b i) = ''int''"
| "Kind (VUint b u) = ''uint''"
| "Kind (VFloat b x) = ''float''"
| "Kind (VBool b) = ''bool''"
| "Kind (VTime t) = ''struct''"
| "Kind (VNil e) = ''slice''"
| "Kind (VSlice e xs) = ''slice''"
| "Kind (VOther k z) = k"

text \<open>\<^verbatim>\<open>v.IsZero()\<close>: a slice is zero when it is nil, a float when its bits are zero.\<close>

fun IsZero :: "val \<Rightarrow> bool" where
  "IsZero (VString s) = (s = [])"
| "IsZero (VInt b i) = (i = 0)"
| "IsZero (VUint b u) = (u = 0)"
| "IsZero (VFloat b x) = (x = 0)"
| "IsZero (VBool b) = (\<not> b)"
| "IsZero (VTime t) = (t = zeroTime)"
| "IsZero (VNil e) = True"
| "IsZero (VSlice e xs) = False"
| "IsZero (VOther k z) = z"

text \<open>The elements of a slice, \<^verbatim>\<open>fv.Index(0)\<close> to \<^verbatim>\<open>fv.Index(fv.Len() - 1)\<close>.\<close>

fun elems :: "val \<Rightarrow> val list" where
  "elems (VSlice e xs) = xs"
| "elems v = []"

fun elemType :: "val \<Rightarrow> ty" where
  "elemType (VSlice e xs) = e"
| "elemType (VNil e) = e"
| "elemType v = TOther ''invalid''"

subsection \<open>The Marshaler and Unmarshaler interfaces\<close>

text \<open>
  What a type's methods do is a parameter of the model. A method set says, for each of
  the two interfaces, whether the type implements it and how: \<open>ByValue\<close> when the value
  itself satisfies the interface, \<open>ByPointer\<close> when only a pointer to it does.
  \<^verbatim>\<open>MarshalQueryParam\<close> returns a string or an error; \<^verbatim>\<open>UnmarshalQueryParam\<close> returns
  the error, if any, and leaves the value as the method wrote it.
\<close>

datatype receiver = ByValue | ByPointer

record methods =
  MarshalQueryParam :: "(receiver \<times> (val \<Rightarrow> error + string)) option"
  UnmarshalQueryParam :: "(receiver \<times> (string \<Rightarrow> val \<Rightarrow> val \<times> error option)) option"

definition noMethods :: methods where
  "noMethods = \<lparr>MarshalQueryParam = None, UnmarshalQueryParam = None\<rparr>"

subsection \<open>Struct fields, structs and url.Values\<close>

text \<open>
  A field of the struct: \<^verbatim>\<open>sf.Name\<close>, the tag \<^verbatim>\<open>sf.Tag.Get("query")\<close> (empty when the
  field has no such tag), whether the field is exported (\<^verbatim>\<open>fv.CanInterface()\<close>; with an
  addressable struct \<^verbatim>\<open>fv.CanSet()\<close>), the method sets of the field's type and of its
  element type, and the field's value.
\<close>

record struct_field =
  Name :: string
  Tag :: string
  exported :: bool
  fmethods :: methods
  emethods :: methods
  fval :: val

text \<open>
  The argument \<^verbatim>\<open>src any\<close> / \<^verbatim>\<open>out any\<close>: a struct, a pointer to a struct, a pointer to
  something else, nil, or any other value (the string is the type's name).
\<close>

datatype any = Struct "struct_field list" | PtrStruct "struct_field list"
  | PtrOther string | NilPtr | Other string

text \<open>\<^verbatim>\<open>url.Values\<close>, a \<^verbatim>\<open>map[string][]string\<close>, with \<^verbatim>\<open>Add\<close> and \<^verbatim>\<open>Set\<close>.\<close>

type_synonym Values = "string \<rightharpoonup> string list"

definition Values_Add :: "Values \<Rightarrow> string \<Rightarrow> string \<Rightarrow> Values" where
  "Values_Add v key s = v(key \<mapsto> (case v key of None \<Rightarrow> [] | Some old \<Rightarrow> old) @ [s])"

definition Values_Set :: "Values \<Rightarrow> string \<Rightarrow> string \<Rightarrow> Values" where
  "Values_Set v key s = v(key \<mapsto> [s])"

section \<open>The package\<close>

subsection \<open>parseTag\<close>

definition parseTag :: "string \<Rightarrow> string \<times> bool" where
  "parseTag tag =
     (if tag = [] then ([], False)
      else
        let parts = Split tag (CHR '','');
            name = hd parts;
            omitzero = (''omitzero'' \<in> set (tl parts))
        in (name, omitzero))"

subsection \<open>toString\<close>

definition implementsMarshaler :: "methods \<Rightarrow> bool \<Rightarrow> val \<Rightarrow> (val \<Rightarrow> error + string) option" where
  "implementsMarshaler m canAddr v =
     (case MarshalQueryParam m of
        None \<Rightarrow> None
      | Some (ByValue, f) \<Rightarrow> Some f
      | Some (ByPointer, f) \<Rightarrow> if Kind v \<noteq> ''ptr'' \<and> canAddr then Some f else None)"

definition toString :: "strconv \<Rightarrow> methods \<Rightarrow> bool \<Rightarrow> val \<Rightarrow> error + string" where
  "toString lib m canAddr v =
     (case implementsMarshaler m canAddr v of
        Some marshaler \<Rightarrow> marshaler v
      | None \<Rightarrow>
          (case v of
             VString s \<Rightarrow> Inr s
           | VInt b i \<Rightarrow> Inr (FormatInt i)
           | VUint b u \<Rightarrow> Inr (FormatUint u)
           | VFloat b x \<Rightarrow> Inr (FormatFloat lib x)
           | VBool b \<Rightarrow> Inr (FormatBool b)
           | VTime t \<Rightarrow> Inr (Format_RFC3339 t)
           | _ \<Rightarrow> Inl (UnsupportedType (Kind v))))"

subsection \<open>setFromString\<close>

definition implementsUnmarshaler ::
  "methods \<Rightarrow> bool \<Rightarrow> val \<Rightarrow> (string \<Rightarrow> val \<Rightarrow> val \<times> error option) option" where
  "implementsUnmarshaler m canAddr v =
     (case UnmarshalQueryParam m of
        None \<Rightarrow> None
      | Some (ByValue, f) \<Rightarrow> Some f
      | Some (ByPointer, f) \<Rightarrow> if Kind v \<noteq> ''ptr'' \<and> canAddr then Some f else None)"

text \<open>
  \<^verbatim>\<open>setFromString(v, s)\<close> writes through \<open>v\<close> and returns an error: the model returns the
  value \<open>v\<close> holds afterwards and the error. A failed parse leaves \<open>v\<close> as it was.
\<close>

definition setFromString ::
  "strconv \<Rightarrow> methods \<Rightarrow> bool \<Rightarrow> val \<Rightarrow> string \<Rightarrow> val \<times> error option" where
  "setFromString lib m canAddr v s =
     (case implementsUnmarshaler m canAddr v of
        Some unmarshaler \<Rightarrow> unmarshaler s v
      | None \<Rightarrow>
          (case v of
             VString old \<Rightarrow> (VString s, None)
           | VInt b old \<Rightarrow>
               (case ParseInt s b of Inl err \<Rightarrow> (v, Some err) | Inr i \<Rightarrow> (VInt b i, None))
           | VUint b old \<Rightarrow>
               (case ParseUint s b of Inl err \<Rightarrow> (v, Some err) | Inr u \<Rightarrow> (VUint b u, None))
           | VFloat b old \<Rightarrow>
               (case ParseFloat lib s b of Inl err \<Rightarrow> (v, Some err) | Inr f \<Rightarrow> (VFloat b f, None))
           | VBool old \<Rightarrow>
               (case ParseBool s of Inl err \<Rightarrow> (v, Some err) | Inr b \<Rightarrow> (VBool b, None))
           | VTime old \<Rightarrow>
               (case Parse_RFC3339 s of Inl err \<Rightarrow> (v, Some err) | Inr parsed \<Rightarrow> (VTime parsed, None))
           | _ \<Rightarrow> (v, Some (UnsupportedKind (Kind v)))))"

subsection \<open>Marshal\<close>

text \<open>
  The inner loop of \<^verbatim>\<open>Marshal\<close> over the elements of a slice field (lines 67 to 74): the
  first element that does not convert stops the whole call with the map as it is.
  An element of a slice is addressable.
\<close>

fun marshalElems ::
  "strconv \<Rightarrow> methods \<Rightarrow> Values \<Rightarrow> string \<Rightarrow> val list \<Rightarrow> Values \<times> error option" where
  "marshalElems lib m uv name [] = (uv, None)"
| "marshalElems lib m uv name (x # xs) =
     (case toString lib m True x of
        Inl err \<Rightarrow> (uv, Some err)
      | Inr s \<Rightarrow> marshalElems lib m (Values_Add uv name s) name xs)"

text \<open>
  The body of the loop of \<^verbatim>\<open>Marshal\<close> over the fields (lines 46 to 82), for one field:
  the map afterwards, and the error when the body returns with one. \<open>canAddr\<close> says
  whether the struct is addressable (it came through a pointer).
\<close>

definition marshalField ::
  "strconv \<Rightarrow> bool \<Rightarrow> Values \<Rightarrow> struct_field \<Rightarrow> Values \<times> error option" where
  "marshalField lib canAddr uv sf =
     (case parseTag (Tag sf) of (name0, omitzero) \<Rightarrow>
        if name0 = ''-'' then (uv, None)
        else
          let name = (if name0 = [] then ToLower (Name sf) else name0);
              fv = fval sf
          in if \<not> exported sf then (uv, None)
             else if omitzero \<and> IsZero fv then (uv, None)
             else if Kind fv = ''slice'' then marshalElems lib (emethods sf) uv name (elems fv)
             else (case toString lib (fmethods sf) canAddr fv of
                     Inl err \<Rightarrow> (uv, Some err)
                   | Inr s \<Rightarrow> (Values_Set uv name s, None)))"

fun marshalFields ::
  "strconv \<Rightarrow> bool \<Rightarrow> Values \<Rightarrow> struct_field list \<Rightarrow> Values \<times> error option" where
  "marshalFields lib canAddr uv [] = (uv, None)"
| "marshalFields lib canAddr uv (sf # sfs) =
     (case marshalField lib canAddr uv sf of
        (uv', Some err) \<Rightarrow> (uv', Some err)
      | (uv', None) \<Rightarrow> marshalFields lib canAddr uv' sfs)"

text \<open>
  \<^verbatim>\<open>Marshal(src)\<close>. The nil map returned with the type error reads as the empty map.
  For a nil pointer \<^verbatim>\<open>v.Elem()\<close> is the zero \<^verbatim>\<open>reflect.Value\<close>, whose \<^verbatim>\<open>Type()\<close> panics.
\<close>

definition Marshal :: "strconv \<Rightarrow> any \<Rightarrow> Values \<times> error option" where
  "Marshal lib src =
     (case src of
        Struct sfs \<Rightarrow> marshalFields lib False Map.empty sfs
      | PtrStruct sfs \<Rightarrow> marshalFields lib True Map.empty sfs
      | PtrOther t \<Rightarrow> (Map.empty, Some (NotStruct t))
      | NilPtr \<Rightarrow> (Map.empty, Some (Panic ''reflect: call of reflect.Value.Type on zero Value''))
      | Other t \<Rightarrow> (Map.empty, Some (NotStruct t)))"

subsection \<open>Unmarshal\<close>

text \<open>
  The loop over the strings of a slice field (lines 128 to 136): each string is parsed
  into a new zero element of the element type; the first failure is the result.
\<close>

fun unmarshalElems :: "strconv \<Rightarrow> methods \<Rightarrow> ty \<Rightarrow> string list \<Rightarrow> error + val list" where
  "unmarshalElems lib m e [] = Inr []"
| "unmarshalElems lib m e (s # strs) =
     (case setFromString lib m True (Zero e) s of
        (elem, Some err) \<Rightarrow> Inl err
      | (elem, None) \<Rightarrow>
          (case unmarshalElems lib m e strs of
             Inl err \<Rightarrow> Inl err
           | Inr rest \<Rightarrow> Inr (elem # rest)))"

text \<open>
  The body of the loop of \<^verbatim>\<open>Unmarshal\<close> over the fields (lines 102 to 145), for one
  field: the field afterwards, and the error when the body returns with one.
  \<^verbatim>\<open>sf.Name[:1]\<close> is the first byte of the name (a field's name is never empty).
\<close>

definition unmarshalField ::
  "strconv \<Rightarrow> Values \<Rightarrow> struct_field \<Rightarrow> struct_field \<times> error option" where
  "unmarshalField lib values sf =
     (case parseTag (Tag sf) of (name0, omitzero) \<Rightarrow>
        if name0 = ''-'' then (sf, None)
        else
          let name = (if name0 = [] then ToLower (take 1 (Name sf)) @ drop 1 (Name sf) else name0)
          in (case values name of
                None \<Rightarrow> (sf, None)
              | Some strs \<Rightarrow>
                  if strs = [] then (sf, None)
                  else if \<not> exported sf then (sf, None)
                  else if Kind (fval sf) = ''slice'' then
                    (case unmarshalElems lib (emethods sf) (elemType (fval sf)) strs of
                       Inl err \<Rightarrow> (sf, Some (FieldError name err))
                     | Inr newSlice \<Rightarrow>
                         (sf\<lparr>fval := VSlice (elemType (fval sf)) newSlice\<rparr>, None))
                  else
                    (case setFromString lib (fmethods sf) True (fval sf) (hd strs) of
                       (v, Some err) \<Rightarrow> (sf\<lparr>fval := v\<rparr>, Some (FieldError name err))
                     | (v, None) \<Rightarrow> (sf\<lparr>fval := v\<rparr>, None))))"

fun unmarshalFields ::
  "strconv \<Rightarrow> Values \<Rightarrow> struct_field list \<Rightarrow> struct_field list \<times> error option" where
  "unmarshalFields lib values [] = ([], None)"
| "unmarshalFields lib values (sf # sfs) =
     (case unmarshalField lib values sf of
        (sf', Some err) \<Rightarrow> (sf' # sfs, Some err)
      | (sf', None) \<Rightarrow>
          (case unmarshalFields lib values sfs of (sfs', r) \<Rightarrow> (sf' # sfs', r)))"

text \<open>
  Modelled from the spec: \<^verbatim>\<open>ptr.EnforcePtr\<close> of the package \<^verbatim>\<open>go-util/ptr\<close>, whose source
  is not part of this repository. The spec: the destination must be a non-nil
  reference, else the call fails; the result is the value referred to.
\<close>

definition EnforcePtr :: "any \<Rightarrow> error + any" where
  "EnforcePtr out =
     (case out of
        PtrStruct sfs \<Rightarrow> Inr (Struct sfs)
      | PtrOther t \<Rightarrow> Inr (Other t)
      | _ \<Rightarrow> Inl EnforcePtrError)"

text \<open>
  \<^verbatim>\<open>Unmarshal(values, out)\<close> writes through \<open>out\<close> and returns an error: the model returns
  \<open>out\<close> as it is afterwards and the error.
\<close>

definition Unmarshal :: "strconv \<Rightarrow> Values \<Rightarrow> any \<Rightarrow> any \<times> error option" where
  "Unmarshal lib values out =
     (case EnforcePtr out of
        Inl err \<Rightarrow> (out, Some err)
      | Inr (Struct sfs) \<Rightarrow>
          (case unmarshalFields lib values sfs of (sfs', r) \<Rightarrow> (PtrStruct sfs', r))
      | Inr (Other t) \<Rightarrow> (out, Some (NotStruct t))
      | Inr _ \<Rightarrow> (out, Some (NotStruct [])))"

section \<open>Notions used to state the properties\<close>

text \<open>
  The key under which \<^verbatim>\<open>Marshal\<close> files a field (lines 47 and 53 to 55) and the key
  under which \<^verbatim>\<open>Unmarshal\<close> looks a field up (lines 103 and 109 to 111).
\<close>

definition marshalName :: "struct_field \<Rightarrow> string" where
  "marshalName sf =
     (case parseTag (Tag sf) of (name0, omitzero) \<Rightarrow>
        if name0 = [] then ToLower (Name sf) else name0)"

definition unmarshalName :: "struct_field \<Rightarrow> string" where
  "unmarshalName sf =
     (case parseTag (Tag sf) of (name0, omitzero) \<Rightarrow>
        if name0 = [] then ToLower (take 1 (Name sf)) @ drop 1 (Name sf) else name0)"

fun fieldsOf :: "any \<Rightarrow> struct_field list" where
  "fieldsOf (Struct sfs) = sfs"
| "fieldsOf (PtrStruct sfs) = sfs"
| "fieldsOf x = []"

text \<open>
  The argument of \<^verbatim>\<open>Marshal\<close> for a struct with the fields \<open>sfs\<close>: passed by pointer
  (\<open>a\<close> true, the fields are addressable) or by value.
\<close>

definition structArg :: "bool \<Rightarrow> struct_field list \<Rightarrow> any" where
  "structArg a sfs = (if a then PtrStruct sfs else Struct sfs)"

text \<open>
  The timestamps that the RFC 3339 text can hold: a year of four digits, a date and a
  clock that exist, and a zone offset of whole minutes below 24 hours.
\<close>

definition rfc3339Time :: "Time \<Rightarrow> bool" where
  "rfc3339Time t =
     (0 \<le> year t \<and> year t \<le> 9999 \<and> 1 \<le> month t \<and> month t \<le> 12
      \<and> 1 \<le> day t \<and> day t \<le> daysIn (month t) (nat (year t))
      \<and> hour t \<le> 23 \<and> minute t \<le> 59 \<and> second t \<le> 59
      \<and> offset t mod 60 = 0 \<and> \<bar>offset t\<bar> < 86400)"




text \<open>
  For the examples: an exported field of a type without methods, and a library
  instance for structs that hold no float (both float functions are never called).
\<close>

definition fld :: "string \<Rightarrow> string \<Rightarrow> val \<Rightarrow> struct_field" where
  "fld n t v = \<lparr>Name = n, Tag = t, exported = True, fmethods = noMethods,
                emethods = noMethods, fval = v\<rparr>"

definition noFloat :: strconv where
  "noFloat = \<lparr>FormatFloat = (\<lambda>x. []),
               ParseFloat = (\<lambda>s bits. Inl (NumError ''ParseFloat'' s ErrSyntax))\<rparr>"


section \<open>Properties\<close>

subsection \<open>The loops over the fields\<close>

lemma marshalFields_append:
  "marshalFields lib a uv (xs @ ys) =
     (case marshalFields lib a uv xs of
        (uv', Some err) \<Rightarrow> (uv', Some err)
      | (uv', None) \<Rightarrow> marshalFields lib a uv' ys)"
  by (induction xs arbitrary: uv) (auto split: prod.splits option.splits)

lemma Marshal_structArg:
  "Marshal lib (structArg a sfs) = marshalFields lib a Map.empty sfs"
  by (simp add: Marshal_def structArg_def)

lemma unmarshalFields_append:
  "unmarshalFields lib values (xs @ ys) =
     (case unmarshalFields lib values xs of
        (xs', Some err) \<Rightarrow> (xs' @ ys, Some err)
      | (xs', None) \<Rightarrow>
          (case unmarshalFields lib values ys of (ys', r) \<Rightarrow> (xs' @ ys', r)))"
  by (induction xs) (auto split: prod.splits option.splits)

lemma unmarshalFields_length:
  "length (fst (unmarshalFields lib values sfs)) = length sfs"
  by (induction sfs) (auto split: prod.splits option.splits)

lemma marshalElems_other_key:
  "k \<noteq> name \<Longrightarrow> fst (marshalElems lib m uv name xs) k = uv k"
  by (induction xs arbitrary: uv) (auto simp: Values_Add_def split: sum.splits)

lemma marshalField_other_key:
  "k \<noteq> marshalName sf \<Longrightarrow> fst (marshalField lib a uv sf) k = uv k"
  by (auto simp: marshalField_def marshalName_def Let_def Values_Set_def
      marshalElems_other_key split: prod.splits sum.splits)

lemma marshalFields_other_key:
  "\<forall>sf \<in> set sfs. marshalName sf \<noteq> k \<Longrightarrow> fst (marshalFields lib a uv sfs) k = uv k"
proof (induction sfs arbitrary: uv)
  case Nil
  then show ?case by simp
next
  case (Cons sf sfs)
  obtain uv' r where step: "marshalField lib a uv sf = (uv', r)"
    by (cases "marshalField lib a uv sf")
  have same: "uv' k = uv k"
    using marshalField_other_key [of k sf lib a uv] Cons.prems step by auto
  show ?case
  proof (cases r)
    case None
    then show ?thesis using step same Cons.IH [of uv'] Cons.prems by simp
  next
    case (Some err)
    then show ?thesis using step same by simp
  qed
qed

lemma unmarshalField_cong:
  "values (unmarshalName sf) = values' (unmarshalName sf) \<Longrightarrow>
   unmarshalField lib values sf = unmarshalField lib values' sf"
  by (auto simp: unmarshalField_def unmarshalName_def Let_def split: prod.splits)

subsection \<open>Default key names\<close>



subsection \<open>Facts about single fields\<close>

lemma marshalName_alt:
  "marshalName sf =
     (if fst (parseTag (Tag sf)) = [] then ToLower (Name sf) else fst (parseTag (Tag sf)))"
  by (simp add: marshalName_def case_prod_beta)

lemma unmarshalName_alt:
  "unmarshalName sf =
     (if fst (parseTag (Tag sf)) = [] then ToLower (take 1 (Name sf)) @ drop 1 (Name sf)
      else fst (parseTag (Tag sf)))"
  by (simp add: unmarshalName_def case_prod_beta)

lemma marshalField_alt:
  "marshalField lib a uv sf =
     (if fst (parseTag (Tag sf)) = ''-'' then (uv, None)
      else if \<not> exported sf then (uv, None)
      else if snd (parseTag (Tag sf)) \<and> IsZero (fval sf) then (uv, None)
      else if Kind (fval sf) = ''slice''
        then marshalElems lib (emethods sf) uv (marshalName sf) (elems (fval sf))
      else (case toString lib (fmethods sf) a (fval sf) of
              Inl err \<Rightarrow> (uv, Some err)
            | Inr s \<Rightarrow> (Values_Set uv (marshalName sf) s, None)))"
  by (simp add: marshalField_def marshalName_alt case_prod_beta Let_def split: sum.splits)

lemma unmarshalField_alt:
  "unmarshalField lib values sf =
     (if fst (parseTag (Tag sf)) = ''-'' then (sf, None)
      else (case values (unmarshalName sf) of
              None \<Rightarrow> (sf, None)
            | Some strs \<Rightarrow>
                if strs = [] then (sf, None)
                else if \<not> exported sf then (sf, None)
                else if Kind (fval sf) = ''slice'' then
                  (case unmarshalElems lib (emethods sf) (elemType (fval sf)) strs of
                     Inl err \<Rightarrow> (sf, Some (FieldError (unmarshalName sf) err))
                   | Inr newSlice \<Rightarrow>
                       (sf\<lparr>fval := VSlice (elemType (fval sf)) newSlice\<rparr>, None))
                else
                  (case setFromString lib (fmethods sf) True (fval sf) (hd strs) of
                     (v, r) \<Rightarrow> (sf\<lparr>fval := v\<rparr>, map_option (FieldError (unmarshalName sf)) r))))"
  by (cases "setFromString lib (fmethods sf) True (fval sf) (hd (the (values (unmarshalName sf))))")
     (auto simp: unmarshalField_def unmarshalName_alt case_prod_beta Let_def
      split: option.splits sum.splits)

lemma Split_nonempty: "Split s sep \<noteq> []"
  by (induction s) (auto split: list.splits)

lemma Split_append:
  "Split (xs @ sep # ys) sep = Split xs sep @ Split ys sep"
proof (induction xs)
  case Nil
  then show ?case by simp
next
  case (Cons c cs)
  then show ?case
    using Split_nonempty [of cs sep] by (cases "Split cs sep") auto
qed

lemma parseTag_omitzero:
  "fst (parseTag (t @ '',omitzero'')) = fst (parseTag t) \<and> snd (parseTag (t @ '',omitzero''))"
proof (cases "t = []")
  case True
  then show ?thesis by (simp add: parseTag_def)
next
  case False
  have "Split (t @ CHR '','' # ''omitzero'') (CHR '','') = Split t (CHR '','') @ [''omitzero'']"
    by (simp add: Split_append)
  then show ?thesis
    using False Split_nonempty [of t "CHR '',''"]
    by (cases "Split t (CHR '','')") (auto simp: parseTag_def Let_def)
qed

lemma marshalElems_ok:
  "map (toString lib m True) xs = map Inr strs \<Longrightarrow>
   marshalElems lib m uv name xs = (foldl (\<lambda>u s. Values_Add u name s) uv strs, None)"
proof (induction xs arbitrary: uv strs)
  case Nil
  then show ?case by simp
next
  case (Cons x xs)
  then obtain s rest where strs: "strs = s # rest" by (cases strs) auto
  with Cons.prems have hd: "toString lib m True x = Inr s"
    and tl: "map (toString lib m True) xs = map Inr rest" by auto
  show ?case using Cons.IH [OF tl] hd strs by simp
qed

lemma foldl_Values_Add:
  "strs \<noteq> [] \<Longrightarrow>
   foldl (\<lambda>u s. Values_Add u name s) uv strs
     = uv(name \<mapsto> (case uv name of None \<Rightarrow> [] | Some old \<Rightarrow> old) @ strs)"
proof (induction strs arbitrary: uv)
  case Nil
  then show ?case by simp
next
  case (Cons s rest)
  let ?uv1 = "Values_Add uv name s"
  have one: "?uv1 = uv(name \<mapsto> (case uv name of None \<Rightarrow> [] | Some old \<Rightarrow> old) @ [s])"
    by (simp add: Values_Add_def)
  show ?case
  proof (cases "rest = []")
    case True
    then show ?thesis using one by simp
  next
    case False
    have "foldl (\<lambda>u s. Values_Add u name s) uv (s # rest)
        = foldl (\<lambda>u s. Values_Add u name s) ?uv1 rest"
      by simp
    also have "\<dots> = ?uv1(name \<mapsto> (case ?uv1 name of None \<Rightarrow> [] | Some old \<Rightarrow> old) @ rest)"
      by (rule Cons.IH [OF False])
    also have "\<dots> = uv(name \<mapsto> (case uv name of None \<Rightarrow> [] | Some old \<Rightarrow> old) @ s # rest)"
      unfolding one by simp
    finally show ?thesis .
  qed
qed

lemma marshalElems_fail:
  "map (toString lib m True) oks = map Inr strs \<Longrightarrow> toString lib m True bad = Inl err \<Longrightarrow>
   marshalElems lib m uv name (oks @ bad # rest)
     = (foldl (\<lambda>u s. Values_Add u name s) uv strs, Some err)"
proof (induction oks arbitrary: uv strs)
  case Nil
  then show ?case by simp
next
  case (Cons x xs)
  then obtain s more where strs: "strs = s # more" by (cases strs) auto
  with Cons.prems have hd: "toString lib m True x = Inr s"
    and tl: "map (toString lib m True) xs = map Inr more" by auto
  show ?case using Cons.IH [OF tl Cons.prems(2)] hd strs by simp
qed

lemma unmarshalElems_ok:
  "\<forall>s \<in> set strs. snd (setFromString lib m True (Zero e) s) = None \<Longrightarrow>
   unmarshalElems lib m e strs
     = Inr (map (\<lambda>s. fst (setFromString lib m True (Zero e) s)) strs)"
  by (induction strs) (auto split: prod.splits option.splits)

lemma unmarshalElems_fail:
  "\<forall>s \<in> set oks. snd (setFromString lib m True (Zero e) s) = None \<Longrightarrow>
   snd (setFromString lib m True (Zero e) bad) = Some err \<Longrightarrow>
   unmarshalElems lib m e (oks @ bad # rest) = Inl err"
  by (induction oks) (auto split: prod.splits option.splits)

subsection \<open>Fields tagged "-"\<close>

text \<open>
  Claim C7. A field whose tag name is \<^verbatim>\<open>-\<close> takes no part in either direction.
  \<^verbatim>\<open>Marshal\<close> returns for the struct what it returns for the struct without the field,
  so the field adds no entry. \<^verbatim>\<open>Unmarshal\<close> leaves the field as it is for every input map,
  whatever keys the map holds (the field's declared or derived name among them), and
  treats the other fields as if the field were not there.
\<close>

theorem dash_field_ignored:
  assumes "fst (parseTag (Tag sf)) = ''-''"
  shows "Marshal lib (Struct (pre @ sf # post)) = Marshal lib (Struct (pre @ post))
       \<and> Marshal lib (PtrStruct (pre @ sf # post)) = Marshal lib (PtrStruct (pre @ post))
       \<and> unmarshalField lib values sf = (sf, None)
       \<and> Unmarshal lib values (PtrStruct (pre @ sf # post)) =
           (case Unmarshal lib values (PtrStruct (pre @ post)) of
              (out, r) \<Rightarrow>
                (PtrStruct (take (length pre) (fieldsOf out) @ sf # drop (length pre) (fieldsOf out)),
                 r))"
proof -
  have m: "marshalField lib a uv sf = (uv, None)" for a uv
    using assms by (simp add: marshalField_alt)
  have ms: "marshalFields lib a uv (pre @ sf # post) = marshalFields lib a uv (pre @ post)" for a uv
    by (simp add: marshalFields_append [of lib a uv pre] m split: prod.splits option.splits)
  have u: "unmarshalField lib values sf = (sf, None)"
    using assms by (simp add: unmarshalField_alt)
  obtain pre' r1 where p: "unmarshalFields lib values pre = (pre', r1)"
    by (cases "unmarshalFields lib values pre")
  obtain post' r2 where q: "unmarshalFields lib values post = (post', r2)"
    by (cases "unmarshalFields lib values post")
  have len: "length pre' = length pre"
    using unmarshalFields_length [of lib "values" pre] p by simp
  have us: "Unmarshal lib values (PtrStruct (pre @ sf # post)) =
           (case Unmarshal lib values (PtrStruct (pre @ post)) of
              (out, r) \<Rightarrow>
                (PtrStruct (take (length pre) (fieldsOf out) @ sf # drop (length pre) (fieldsOf out)),
                 r))"
    using p q u len
    by (cases r1) (simp_all add: Unmarshal_def EnforcePtr_def unmarshalFields_append)
  from ms [of False Map.empty] ms [of True Map.empty] u us show ?thesis
    by (simp add: Marshal_def)
qed

theorem dash_field_ignored_witness:
  "Marshal noFloat (Struct [fld ''A'' ''a'' (VString ''x''), fld ''Secret'' ''-'' (VString ''s'')])
     = Marshal noFloat (Struct [fld ''A'' ''a'' (VString ''x'')])
   \<and> Unmarshal noFloat [''a'' \<mapsto> [''y''], ''secret'' \<mapsto> [''t''], ''Secret'' \<mapsto> [''t''], ''-'' \<mapsto> [''t'']]
        (PtrStruct [fld ''A'' ''a'' (VString ''x''), fld ''Secret'' ''-'' (VString ''s'')])
     = (PtrStruct [fld ''A'' ''a'' (VString ''y''), fld ''Secret'' ''-'' (VString ''s'')], None)"
proof -
  let ?sf = "fld ''Secret'' ''-'' (VString ''s'')"
  let ?vs = "[''a'' \<mapsto> [''y''], ''secret'' \<mapsto> [''t''], ''Secret'' \<mapsto> [''t''], ''-'' \<mapsto> [''t'']]"
  have tag: "fst (parseTag (Tag ?sf)) = ''-''"
    by (simp add: fld_def parseTag_def)
  have short: "Unmarshal noFloat ?vs (PtrStruct [fld ''A'' ''a'' (VString ''x'')])
      = (PtrStruct [fld ''A'' ''a'' (VString ''y'')], None)"
    by (simp add: Unmarshal_def EnforcePtr_def unmarshalField_alt unmarshalName_alt fld_def
        parseTag_def setFromString_def implementsUnmarshaler_def noMethods_def)
  from dash_field_ignored [OF tag, of noFloat "[fld ''A'' ''a'' (VString ''x'')]" "[]" ?vs] short
  show ?thesis by simp
qed

lemma unmarshalField_Tag:
  assumes same: "fst (parseTag t1) = fst (parseTag t2)"
  shows "unmarshalField lib values (sf\<lparr>Tag := t1\<rparr>) =
           (case unmarshalField lib values (sf\<lparr>Tag := t2\<rparr>) of
              (sf', r) \<Rightarrow> (sf'\<lparr>Tag := t1\<rparr>, r))"
proof -
  let ?a = "sf\<lparr>Tag := t1\<rparr>" and ?b = "sf\<lparr>Tag := t2\<rparr>"
  have n: "unmarshalName ?a = unmarshalName ?b"
    using same by (simp add: unmarshalName_alt)
  show ?thesis
  proof (cases "fst (parseTag t2) = ''-''")
    case True
    then show ?thesis using same by (simp add: unmarshalField_alt)
  next
    case notdash: False
    show ?thesis
    proof (cases "values (unmarshalName ?b)")
      case None
      then show ?thesis using same n notdash by (simp add: unmarshalField_alt)
    next
      case (Some strs)
      show ?thesis
      proof (cases "strs = [] \<or> \<not> exported sf")
        case True
        then show ?thesis using same n notdash Some by (auto simp: unmarshalField_alt)
      next
        case False
        show ?thesis
        proof (cases "Kind (fval sf) = ''slice''")
          case True
          then show ?thesis
            using same n notdash Some False
            by (cases "unmarshalElems lib (emethods sf) (elemType (fval sf)) strs")
               (simp_all add: unmarshalField_alt)
        next
          case scalar: False
          then show ?thesis
            using same n notdash Some False
            by (cases "setFromString lib (fmethods sf) True (fval sf) (hd strs)")
               (simp_all add: unmarshalField_alt)
        qed
      qed
    qed
  qed
qed

lemma marshalFields_skip:
  assumes "\<And>uv. marshalField lib a uv sf = (uv, None)"
  shows "marshalFields lib a uv0 (pre @ sf # post) = marshalFields lib a uv0 (pre @ post)"
proof -
  obtain uv1 r where p: "marshalFields lib a uv0 pre = (uv1, r)"
    by (cases "marshalFields lib a uv0 pre")
  show ?thesis
    using p assms [of uv1] by (cases r) (simp_all add: marshalFields_append)
qed

subsection \<open>Fields tagged omitzero\<close>

text \<open>
  Claim C8. Take an exported field tagged \<^verbatim>\<open>omitzero\<close> (and not \<^verbatim>\<open>-\<close>). While it holds
  its zero value, \<^verbatim>\<open>Marshal\<close> passes over it: the map is left as it was, the struct
  marshals as the struct without the field, and a struct of this one field has no entry
  under the field's key. A list without elements, nil or not, adds nothing either.
  While it holds a non-zero value, the key appears with the
  encoded value: a scalar that converts to \<open>s\<close> is stored as \<open>[s]\<close>, and the elements of
  a non-empty list are appended under the key, in order. For \<^verbatim>\<open>Unmarshal\<close> the option
  makes no difference: the field with the option added to its tag is decoded exactly as
  the field without it.
\<close>

theorem omitzero_field:
  assumes "fst (parseTag (Tag sf)) \<noteq> ''-''" and "snd (parseTag (Tag sf))" and "exported sf"
  shows "(IsZero (fval sf) \<longrightarrow>
            marshalField lib a uv sf = (uv, None)
          \<and> Marshal lib (Struct (pre @ sf # post)) = Marshal lib (Struct (pre @ post))
          \<and> Marshal lib (PtrStruct (pre @ sf # post)) = Marshal lib (PtrStruct (pre @ post))
          \<and> fst (Marshal lib (Struct [sf])) (marshalName sf) = None)
       \<and> (Kind (fval sf) = ''slice'' \<and> elems (fval sf) = [] \<longrightarrow>
            marshalField lib a uv sf = (uv, None))
       \<and> (\<not> IsZero (fval sf) \<and> Kind (fval sf) \<noteq> ''slice''
            \<and> toString lib (fmethods sf) a (fval sf) = Inr s \<longrightarrow>
            marshalField lib a uv sf = (uv(marshalName sf \<mapsto> [s]), None))
       \<and> (\<not> IsZero (fval sf) \<and> Kind (fval sf) = ''slice'' \<and> strs \<noteq> []
            \<and> map (toString lib (emethods sf) True) (elems (fval sf)) = map Inr strs \<longrightarrow>
            marshalField lib a uv sf =
              (uv(marshalName sf \<mapsto> (case uv (marshalName sf) of None \<Rightarrow> [] | Some old \<Rightarrow> old) @ strs),
               None))
       \<and> unmarshalField lib values (sf\<lparr>Tag := t @ '',omitzero''\<rparr>) =
           (case unmarshalField lib values (sf\<lparr>Tag := t\<rparr>) of
              (sf', r) \<Rightarrow> (sf'\<lparr>Tag := t @ '',omitzero''\<rparr>, r))"
proof -
  have c1: "marshalField lib a uv sf = (uv, None)
          \<and> Marshal lib (Struct (pre @ sf # post)) = Marshal lib (Struct (pre @ post))
          \<and> Marshal lib (PtrStruct (pre @ sf # post)) = Marshal lib (PtrStruct (pre @ post))
          \<and> fst (Marshal lib (Struct [sf])) (marshalName sf) = None"
    if z: "IsZero (fval sf)"
  proof -
    have zero: "marshalField lib a uv sf = (uv, None)" for a uv
      using assms z by (simp add: marshalField_alt)
    have "marshalFields lib a Map.empty (pre @ sf # post)
        = marshalFields lib a Map.empty (pre @ post)" for a
      by (rule marshalFields_skip) (rule zero)
    then show ?thesis using zero by (simp add: Marshal_def)
  qed
  have c0: "marshalField lib a uv sf = (uv, None)"
    if "Kind (fval sf) = ''slice''" and "elems (fval sf) = []"
    using assms that by (simp add: marshalField_alt)
  have c2: "marshalField lib a uv sf = (uv(marshalName sf \<mapsto> [s]), None)"
    if "\<not> IsZero (fval sf)" and "Kind (fval sf) \<noteq> ''slice''"
      and "toString lib (fmethods sf) a (fval sf) = Inr s"
    using assms that by (simp add: marshalField_alt Values_Set_def)
  have c3: "marshalField lib a uv sf =
              (uv(marshalName sf \<mapsto> (case uv (marshalName sf) of None \<Rightarrow> [] | Some old \<Rightarrow> old) @ strs),
               None)"
    if nz: "\<not> IsZero (fval sf)" and sl: "Kind (fval sf) = ''slice''" and ne: "strs \<noteq> []"
      and ok: "map (toString lib (emethods sf) True) (elems (fval sf)) = map Inr strs"
  proof -
    have "marshalField lib a uv sf
        = marshalElems lib (emethods sf) uv (marshalName sf) (elems (fval sf))"
      using assms nz sl by (simp add: marshalField_alt)
    also have "\<dots> = (foldl (\<lambda>u s. Values_Add u (marshalName sf) s) uv strs, None)"
      by (rule marshalElems_ok [OF ok])
    finally show ?thesis by (simp only: foldl_Values_Add [OF ne])
  qed
  have same: "fst (parseTag (t @ '',omitzero'')) = fst (parseTag t)"
    using parseTag_omitzero [of t] by simp
  have c4: "unmarshalField lib values (sf\<lparr>Tag := t @ '',omitzero''\<rparr>) =
           (case unmarshalField lib values (sf\<lparr>Tag := t\<rparr>) of
              (sf', r) \<Rightarrow> (sf'\<lparr>Tag := t @ '',omitzero''\<rparr>, r))"
    by (rule unmarshalField_Tag [OF same])
  from c1 c0 c2 c3 c4 show ?thesis by blast
qed

theorem omitzero_field_witness:
  "Marshal noFloat (Struct [fld ''Name'' ''name'' (VString ''x''), fld ''Count'' ''count,omitzero'' (VInt 64 0)])
     = ([''name'' \<mapsto> [''x'']], None)
   \<and> marshalField noFloat False [''name'' \<mapsto> [''x'']] (fld ''Count'' ''count,omitzero'' (VInt 64 5))
     = ([''name'' \<mapsto> [''x''], ''count'' \<mapsto> [''5'']], None)
   \<and> unmarshalField noFloat [''count'' \<mapsto> [''7'']] (fld ''Count'' ''count,omitzero'' (VInt 64 0))
     = (fld ''Count'' ''count,omitzero'' (VInt 64 7), None)"
proof -
  let ?z = "fld ''Count'' ''count,omitzero'' (VInt 64 0)"
  let ?n = "fld ''Count'' ''count,omitzero'' (VInt 64 5)"
  let ?nm = "fld ''Name'' ''name'' (VString ''x'')"
  have tag: "parseTag ''count,omitzero'' = (''count'', True)"
    by (simp add: parseTag_def)
  have az: "fst (parseTag (Tag ?z)) \<noteq> ''-''" "snd (parseTag (Tag ?z))" "exported ?z"
    by (simp_all add: fld_def tag)
  have an: "fst (parseTag (Tag ?n)) \<noteq> ''-''" "snd (parseTag (Tag ?n))" "exported ?n"
    by (simp_all add: fld_def tag)
  have five: "FormatInt 5 = ''5''" by code_simp
  have seven: "ParseInt ''7'' 64 = Inr 7"
    by (simp add: ParseInt_def isDigit_def digitVal_def)
  have one: "Marshal noFloat (Struct [?nm]) = ([''name'' \<mapsto> [''x'']], None)"
    by (simp add: Marshal_def marshalField_alt marshalName_alt fld_def parseTag_def toString_def
        implementsMarshaler_def noMethods_def Values_Set_def)
  have zz: "IsZero (fval ?z)" by (simp add: fld_def)
  have "Marshal noFloat (Struct ([?nm] @ ?z # [])) = Marshal noFloat (Struct ([?nm] @ []))"
    using omitzero_field [OF az, of noFloat False Map.empty "[?nm]" "[]"] zz by blast
  then have m1: "Marshal noFloat (Struct [?nm, ?z]) = ([''name'' \<mapsto> [''x'']], None)"
    using one by simp
  have ts: "\<not> IsZero (fval ?n) \<and> Kind (fval ?n) \<noteq> ''slice''
      \<and> toString noFloat (fmethods ?n) False (fval ?n) = Inr ''5''"
    by (simp add: fld_def toString_def implementsMarshaler_def noMethods_def five)
  have "marshalField noFloat False [''name'' \<mapsto> [''x'']] ?n
      = ([''name'' \<mapsto> [''x''], marshalName ?n \<mapsto> [''5'']], None)"
    using omitzero_field [OF an, of noFloat False "[''name'' \<mapsto> [''x'']]" "[]" "[]" "''5''"] ts
    by blast
  moreover have "marshalName ?n = ''count''"
    by (simp add: marshalName_alt fld_def tag)
  ultimately have m2: "marshalField noFloat False [''name'' \<mapsto> [''x'']] ?n
      = ([''name'' \<mapsto> [''x''], ''count'' \<mapsto> [''5'']], None)"
    by simp
  have plain: "unmarshalField noFloat [''count'' \<mapsto> [''7'']] (?z\<lparr>Tag := ''count''\<rparr>)
      = (fld ''Count'' ''count'' (VInt 64 7), None)"
    by (simp add: unmarshalField_alt unmarshalName_alt fld_def parseTag_def setFromString_def
        implementsUnmarshaler_def noMethods_def seven)
  have "unmarshalField noFloat [''count'' \<mapsto> [''7'']] (?z\<lparr>Tag := ''count'' @ '',omitzero''\<rparr>) =
           (case unmarshalField noFloat [''count'' \<mapsto> [''7'']] (?z\<lparr>Tag := ''count''\<rparr>) of
              (sf', r) \<Rightarrow> (sf'\<lparr>Tag := ''count'' @ '',omitzero''\<rparr>, r))"
    using omitzero_field [OF az, of noFloat False Map.empty "[]" "[]" "[]" "[]"
        "[''count'' \<mapsto> [''7'']]" "''count''"] by blast
  then have u: "unmarshalField noFloat [''count'' \<mapsto> [''7'']] ?z
      = (fld ''Count'' ''count,omitzero'' (VInt 64 7), None)"
    unfolding plain by (simp add: fld_def)
  from m1 m2 u show ?thesis by simp
qed

lemma marshalField_scalar:
  assumes "fst (parseTag (Tag sf)) \<noteq> ''-''" and "exported sf"
    and "\<not> (snd (parseTag (Tag sf)) \<and> IsZero (fval sf))"
    and "Kind (fval sf) \<noteq> ''slice''"
    and "toString lib (fmethods sf) a (fval sf) = Inr s"
  shows "marshalField lib a uv sf = (uv(marshalName sf \<mapsto> [s]), None)"
  using assms by (auto simp: marshalField_alt Values_Set_def)

lemma unmarshalField_scalar:
  assumes "fst (parseTag (Tag sf)) \<noteq> ''-''" and "exported sf"
    and "Kind (fval sf) \<noteq> ''slice''"
    and "values (unmarshalName sf) = Some (s # rest)"
  shows "unmarshalField lib values sf =
           (case setFromString lib (fmethods sf) True (fval sf) s of
              (v, r) \<Rightarrow> (sf\<lparr>fval := v\<rparr>, map_option (FieldError (unmarshalName sf)) r))"
  using assms by (simp add: unmarshalField_alt)

lemma unmarshalField_first_only:
  assumes "unmarshalName sf = k \<longrightarrow> Kind (fval sf) \<noteq> ''slice''"
  shows "unmarshalField lib (values(k \<mapsto> s # rest)) sf = unmarshalField lib (values(k \<mapsto> [s])) sf"
proof (cases "unmarshalName sf = k")
  case True
  then show ?thesis using assms by (simp add: unmarshalField_alt)
next
  case False
  then show ?thesis by (intro unmarshalField_cong) simp
qed

lemma unmarshalFields_first_only:
  assumes "\<forall>sf \<in> set sfs. unmarshalName sf = k \<longrightarrow> Kind (fval sf) \<noteq> ''slice''"
  shows "unmarshalFields lib (values(k \<mapsto> s # rest)) sfs = unmarshalFields lib (values(k \<mapsto> [s])) sfs"
  using assms
proof (induction sfs)
  case Nil
  then show ?case by simp
next
  case (Cons sf sfs)
  have one: "unmarshalField lib (values(k \<mapsto> s # rest)) sf = unmarshalField lib (values(k \<mapsto> [s])) sf"
    using Cons.prems by (intro unmarshalField_first_only) simp
  have more: "unmarshalFields lib (values(k \<mapsto> s # rest)) sfs = unmarshalFields lib (values(k \<mapsto> [s])) sfs"
    using Cons.prems by (intro Cons.IH) simp
  show ?case by (simp only: unmarshalFields.simps one more)
qed

subsection \<open>Scalar fields with the same key\<close>

text \<open>
  Claim C9. A scalar field that is written (exported, not tagged \<^verbatim>\<open>-\<close>, not omitted as
  zero, converting to \<open>s\<close>) stores the single-value entry \<open>[s]\<close> under its key, whatever
  the map held there before. So when the fields before it marshal without error and no
  later field resolves to the same key, the map that \<^verbatim>\<open>Marshal\<close> returns holds \<open>[s]\<close> under
  that key: of the fields that collide on a key, the last one decides.
\<close>

theorem scalar_collision_last_wins:
  assumes "fst (parseTag (Tag sf)) \<noteq> ''-''" and "exported sf"
    and "\<not> (snd (parseTag (Tag sf)) \<and> IsZero (fval sf))"
    and "Kind (fval sf) \<noteq> ''slice''"
    and "toString lib (fmethods sf) a (fval sf) = Inr s"
  shows "marshalField lib a uv sf = (uv(marshalName sf \<mapsto> [s]), None)
       \<and> (snd (Marshal lib (structArg a pre)) = None
            \<and> (\<forall>g \<in> set post. marshalName g \<noteq> marshalName sf) \<longrightarrow>
          fst (Marshal lib (structArg a (pre @ sf # post))) (marshalName sf) = Some [s])"
proof -
  have step: "marshalField lib a uv sf = (uv(marshalName sf \<mapsto> [s]), None)" for uv
    using assms by (rule marshalField_scalar)
  have whole: "fst (marshalFields lib a Map.empty (pre @ sf # post)) (marshalName sf) = Some [s]"
    if ok: "snd (marshalFields lib a Map.empty pre) = None"
      and later: "\<forall>g \<in> set post. marshalName g \<noteq> marshalName sf"
  proof -
    obtain uv1 where p: "marshalFields lib a Map.empty pre = (uv1, None)"
      using ok by (cases "marshalFields lib a Map.empty pre") auto
    have "marshalFields lib a Map.empty (pre @ sf # post)
        = marshalFields lib a (uv1(marshalName sf \<mapsto> [s])) post"
      using p step [of uv1] by (simp add: marshalFields_append)
    then show ?thesis
      using marshalFields_other_key [OF later, of lib a "uv1(marshalName sf \<mapsto> [s])"]
      by simp
  qed
  from step whole show ?thesis unfolding Marshal_structArg by blast
qed

theorem scalar_collision_last_wins_witness:
  "fst (Marshal noFloat (Struct [fld ''A'' ''k'' (VString ''first''), fld ''B'' ''k'' (VString ''second''),
        fld ''C'' ''other'' (VString ''z'')])) ''k'' = Some [''second'']"
proof -
  let ?a = "fld ''A'' ''k'' (VString ''first'')"
  let ?b = "fld ''B'' ''k'' (VString ''second'')"
  let ?c = "fld ''C'' ''other'' (VString ''z'')"
  have tk: "parseTag ''k'' = (''k'', False)" by (simp add: parseTag_def)
  have tother: "parseTag ''other'' = (''other'', False)" by (simp add: parseTag_def)
  have b1: "fst (parseTag (Tag ?b)) \<noteq> ''-''" by (simp add: fld_def tk)
  have b2: "exported ?b" by (simp add: fld_def)
  have b3: "\<not> (snd (parseTag (Tag ?b)) \<and> IsZero (fval ?b))" by (simp add: fld_def tk)
  have b4: "Kind (fval ?b) \<noteq> ''slice''" by (simp add: fld_def)
  have b5: "toString noFloat (fmethods ?b) False (fval ?b) = Inr ''second''"
    by (simp add: fld_def toString_def implementsMarshaler_def noMethods_def)
  have nb: "marshalName ?b = ''k''" by (simp add: marshalName_alt fld_def tk)
  have pre: "snd (marshalFields noFloat False Map.empty [?a]) = None"
    by (simp add: marshalField_alt fld_def tk toString_def implementsMarshaler_def noMethods_def)
  have post: "\<forall>g \<in> set [?c]. marshalName g \<noteq> marshalName ?b"
    by (simp add: marshalName_alt fld_def tk tother)
  have "fst (marshalFields noFloat False Map.empty ([?a] @ ?b # [?c])) (marshalName ?b)
      = Some [''second'']"
    using scalar_collision_last_wins [OF b1 b2 b3 b4 b5, of Map.empty "[?a]" "[?c]"] pre post
    unfolding Marshal_structArg by blast
  then show ?thesis by (simp add: Marshal_def nb)
qed

subsection \<open>Several values for a scalar field\<close>

text \<open>
  Claim C10. When no list field resolves to the key \<open>k\<close>, \<^verbatim>\<open>Unmarshal\<close> on a map that
  holds \<open>s\<close> followed by further values under \<open>k\<close> does exactly what it does on the map
  that holds \<open>s\<close> alone there: the same struct and the same error, so the further values
  are never parsed. A scalar field with that key is set from \<open>s\<close>, the first value.
\<close>

theorem scalar_takes_first_value:
  assumes "\<forall>sf \<in> set sfs. unmarshalName sf = k \<longrightarrow> Kind (fval sf) \<noteq> ''slice''"
  shows "Unmarshal lib (values(k \<mapsto> s # rest)) (PtrStruct sfs)
           = Unmarshal lib (values(k \<mapsto> [s])) (PtrStruct sfs)
       \<and> (\<forall>sf \<in> set sfs.
            unmarshalName sf = k \<and> fst (parseTag (Tag sf)) \<noteq> ''-'' \<and> exported sf \<longrightarrow>
            unmarshalField lib (values(k \<mapsto> s # rest)) sf =
              (case setFromString lib (fmethods sf) True (fval sf) s of
                 (v, r) \<Rightarrow> (sf\<lparr>fval := v\<rparr>, map_option (FieldError k) r)))"
proof -
  have whole: "Unmarshal lib (values(k \<mapsto> s # rest)) (PtrStruct sfs)
           = Unmarshal lib (values(k \<mapsto> [s])) (PtrStruct sfs)"
    using unmarshalFields_first_only [OF assms, of lib "values" s rest]
    by (simp add: Unmarshal_def EnforcePtr_def)
  have each: "unmarshalField lib (values(k \<mapsto> s # rest)) sf =
              (case setFromString lib (fmethods sf) True (fval sf) s of
                 (v, r) \<Rightarrow> (sf\<lparr>fval := v\<rparr>, map_option (FieldError k) r))"
    if "sf \<in> set sfs" and "unmarshalName sf = k" and "fst (parseTag (Tag sf)) \<noteq> ''-''"
      and "exported sf" for sf
    using that assms
      unmarshalField_scalar [of sf "values(k \<mapsto> s # rest)" s rest lib]
    by auto
  from whole each show ?thesis by blast
qed

theorem scalar_takes_first_value_witness:
  "Unmarshal noFloat [''n'' \<mapsto> [''7'', ''zzz'', ''9'']] (PtrStruct [fld ''N'' ''n'' (VInt 64 0)])
     = (PtrStruct [fld ''N'' ''n'' (VInt 64 7)], None)"
proof -
  let ?sf = "fld ''N'' ''n'' (VInt 64 0)"
  have tn: "parseTag ''n'' = (''n'', False)" by (simp add: parseTag_def)
  have seven: "ParseInt ''7'' 64 = Inr 7"
    by (simp add: ParseInt_def isDigit_def digitVal_def)
  have pre: "\<forall>sf \<in> set [?sf]. unmarshalName sf = ''n'' \<longrightarrow> Kind (fval sf) \<noteq> ''slice''"
    by (simp add: fld_def)
  have single: "Unmarshal noFloat (Map.empty(''n'' \<mapsto> [''7''])) (PtrStruct [?sf])
      = (PtrStruct [fld ''N'' ''n'' (VInt 64 7)], None)"
    by (simp add: Unmarshal_def EnforcePtr_def unmarshalField_alt unmarshalName_alt fld_def tn
        setFromString_def implementsUnmarshaler_def noMethods_def seven)
  have "Unmarshal noFloat (Map.empty(''n'' \<mapsto> ''7'' # [''zzz'', ''9''])) (PtrStruct [?sf])
      = Unmarshal noFloat (Map.empty(''n'' \<mapsto> [''7''])) (PtrStruct [?sf])"
    using scalar_takes_first_value [OF pre, of noFloat Map.empty "''7''" "[''zzz'', ''9'']"]
    by blast
  then show ?thesis using single by simp
qed

subsection \<open>The first failure stops Marshal\<close>

text \<open>
  Claim C4. Let the fields before \<open>sf\<close> marshal without error into the map \<open>uv1\<close>, and
  let \<open>sf\<close> be a field that is written (exported, not tagged \<^verbatim>\<open>-\<close>, not omitted as zero).
  If \<open>sf\<close> is a scalar whose conversion fails with \<open>err\<close>, \<^verbatim>\<open>Marshal\<close> returns \<open>err\<close>
  together with \<open>uv1\<close>. If \<open>sf\<close> is a list whose first elements \<open>oks\<close> convert to \<open>strs\<close>
  and whose next element fails with \<open>err\<close>, \<^verbatim>\<open>Marshal\<close> returns \<open>err\<close> together with
  \<open>uv1\<close> extended by the entries \<open>strs\<close> already added under the field's key. In both
  cases the fields after \<open>sf\<close> (and the elements after the failing one) add nothing.
\<close>

theorem marshal_aborts_on_first_failure:
  assumes pre: "Marshal lib (structArg a pre) = (uv1, None)"
    and sf: "fst (parseTag (Tag sf)) \<noteq> ''-''" "exported sf"
      "\<not> (snd (parseTag (Tag sf)) \<and> IsZero (fval sf))"
  shows "(Kind (fval sf) \<noteq> ''slice'' \<and> toString lib (fmethods sf) a (fval sf) = Inl err \<longrightarrow>
            Marshal lib (structArg a (pre @ sf # post)) = (uv1, Some err))
       \<and> (Kind (fval sf) = ''slice'' \<and> elems (fval sf) = oks @ bad # rest
            \<and> map (toString lib (emethods sf) True) oks = map Inr strs
            \<and> toString lib (emethods sf) True bad = Inl err \<longrightarrow>
            Marshal lib (structArg a (pre @ sf # post))
              = (foldl (\<lambda>u s. Values_Add u (marshalName sf) s) uv1 strs, Some err))"
proof -
  have p: "marshalFields lib a Map.empty pre = (uv1, None)"
    using pre by (simp only: Marshal_structArg)
  have app: "marshalFields lib a Map.empty (pre @ sf # post) = (uv2, Some e)"
    if "marshalField lib a uv1 sf = (uv2, Some e)" for uv2 e
    using p that by (simp add: marshalFields_append)
  have scalar: "marshalField lib a uv1 sf = (uv1, Some err)"
    if "Kind (fval sf) \<noteq> ''slice''" and "toString lib (fmethods sf) a (fval sf) = Inl err"
    using sf that by (auto simp: marshalField_alt)
  have slice: "marshalField lib a uv1 sf
      = (foldl (\<lambda>u s. Values_Add u (marshalName sf) s) uv1 strs, Some err)"
    if k: "Kind (fval sf) = ''slice''" and el: "elems (fval sf) = oks @ bad # rest"
      and ok: "map (toString lib (emethods sf) True) oks = map Inr strs"
      and bad: "toString lib (emethods sf) True bad = Inl err"
  proof -
    have "marshalField lib a uv1 sf
        = marshalElems lib (emethods sf) uv1 (marshalName sf) (oks @ bad # rest)"
      using sf k el by (auto simp: marshalField_alt)
    then show ?thesis by (simp only: marshalElems_fail [OF ok bad])
  qed
  from app [OF scalar] app [OF slice] show ?thesis
    unfolding Marshal_structArg by blast
qed

theorem marshal_aborts_on_first_failure_witness:
  "Marshal noFloat (Struct [fld ''A'' ''a'' (VString ''x''),
      fld ''L'' ''l'' (VSlice (TOther ''map'') [VString ''p'', VOther ''map'' False, VString ''q'']),
      fld ''Z'' ''z'' (VString ''never'')])
     = ([''a'' \<mapsto> [''x''], ''l'' \<mapsto> [''p'']], Some (UnsupportedType ''map''))"
proof -
  let ?a = "fld ''A'' ''a'' (VString ''x'')"
  let ?l = "fld ''L'' ''l'' (VSlice (TOther ''map'') [VString ''p'', VOther ''map'' False, VString ''q''])"
  let ?z = "fld ''Z'' ''z'' (VString ''never'')"
  have ta: "parseTag ''a'' = (''a'', False)" by (simp add: parseTag_def)
  have tl: "parseTag ''l'' = (''l'', False)" by (simp add: parseTag_def)
  have pre: "Marshal noFloat (structArg False [?a]) = ([''a'' \<mapsto> [''x'']], None)"
    by (simp add: Marshal_structArg marshalField_alt marshalName_alt fld_def ta toString_def
        implementsMarshaler_def noMethods_def Values_Set_def)
  have l1: "fst (parseTag (Tag ?l)) \<noteq> ''-''" by (simp add: fld_def tl)
  have l2: "exported ?l" by (simp add: fld_def)
  have l3: "\<not> (snd (parseTag (Tag ?l)) \<and> IsZero (fval ?l))" by (simp add: fld_def tl)
  have l4: "Kind (fval ?l) = ''slice'' \<and> elems (fval ?l) = [VString ''p''] @ VOther ''map'' False # [VString ''q'']
      \<and> map (toString noFloat (emethods ?l) True) [VString ''p''] = map Inr [''p'']
      \<and> toString noFloat (emethods ?l) True (VOther ''map'' False) = Inl (UnsupportedType ''map'')"
    by (simp add: fld_def toString_def implementsMarshaler_def noMethods_def)
  have nl: "marshalName ?l = ''l''" by (simp add: marshalName_alt fld_def tl)
  have "Marshal noFloat (structArg False ([?a] @ ?l # [?z]))
      = (foldl (\<lambda>u s. Values_Add u (marshalName ?l) s) [''a'' \<mapsto> [''x'']] [''p''],
         Some (UnsupportedType ''map''))"
    using marshal_aborts_on_first_failure [OF pre l1 l2 l3, of "UnsupportedType ''map''" "[?z]"
        "[VString ''p'']" "VOther ''map'' False" "[VString ''q'']" "[''p'']"] l4
    by blast
  then show ?thesis by (simp add: structArg_def nl Values_Add_def)
qed

lemma Unmarshal_PtrStruct:
  "Unmarshal lib values (PtrStruct sfs) =
     (case unmarshalFields lib values sfs of (sfs', r) \<Rightarrow> (PtrStruct sfs', r))"
  by (simp add: Unmarshal_def EnforcePtr_def)


subsection \<open>The first failure stops Unmarshal\<close>



subsection \<open>List fields\<close>

text \<open>
  Claim C6. Take an exported list field, not tagged \<^verbatim>\<open>-\<close>. Encoding: when its elements
  convert to the strings \<open>strs\<close>, element by element, \<^verbatim>\<open>Marshal\<close> adds them one by one
  under the field's key (\<^verbatim>\<open>uv.Add\<close> for each, nothing joined), so the key ends with
  the entries \<open>strs\<close> in element order after what it held before. Decoding: when the
  key holds the strings \<open>ins\<close> (at least one) and each of them parses, the field
  becomes the list of the values parsed from \<open>ins\<close>, each string parsed on its own into
  a new zero element, in the order of \<open>ins\<close>; the list the field held before does not
  appear in the result. (A key with no value leaves the field as it is.)
\<close>

theorem list_field_order:
  assumes "fst (parseTag (Tag sf)) \<noteq> ''-''" and "exported sf" and "Kind (fval sf) = ''slice''"
  shows "(\<not> (snd (parseTag (Tag sf)) \<and> IsZero (fval sf))
            \<and> map (toString lib (emethods sf) True) (elems (fval sf)) = map Inr strs \<longrightarrow>
            marshalField lib a uv sf
              = (foldl (\<lambda>u s. Values_Add u (marshalName sf) s) uv strs, None)
            \<and> (strs \<noteq> [] \<longrightarrow>
                 fst (marshalField lib a uv sf) (marshalName sf)
                   = Some ((case uv (marshalName sf) of None \<Rightarrow> [] | Some old \<Rightarrow> old) @ strs)))
       \<and> (values (unmarshalName sf) = Some ins \<and> ins \<noteq> []
            \<and> (\<forall>s \<in> set ins.
                  snd (setFromString lib (emethods sf) True (Zero (elemType (fval sf))) s) = None) \<longrightarrow>
            unmarshalField lib values sf
              = (sf\<lparr>fval := VSlice (elemType (fval sf))
                    (map (\<lambda>s. fst (setFromString lib (emethods sf) True (Zero (elemType (fval sf))) s))
                       ins)\<rparr>,
                 None))"
proof -
  have enc: "marshalField lib a uv sf
      = (foldl (\<lambda>u s. Values_Add u (marshalName sf) s) uv strs, None)"
    if nz: "\<not> (snd (parseTag (Tag sf)) \<and> IsZero (fval sf))"
      and ok: "map (toString lib (emethods sf) True) (elems (fval sf)) = map Inr strs"
  proof -
    have "marshalField lib a uv sf
        = marshalElems lib (emethods sf) uv (marshalName sf) (elems (fval sf))"
      using assms nz by (auto simp: marshalField_alt)
    then show ?thesis by (simp only: marshalElems_ok [OF ok])
  qed
  have entry: "fst (marshalField lib a uv sf) (marshalName sf)
      = Some ((case uv (marshalName sf) of None \<Rightarrow> [] | Some old \<Rightarrow> old) @ strs)"
    if nz: "\<not> (snd (parseTag (Tag sf)) \<and> IsZero (fval sf))"
      and ok: "map (toString lib (emethods sf) True) (elems (fval sf)) = map Inr strs"
      and ne: "strs \<noteq> []"
    by (simp add: enc [OF nz ok] foldl_Values_Add [OF ne])
  have dec: "unmarshalField lib values sf
      = (sf\<lparr>fval := VSlice (elemType (fval sf))
            (map (\<lambda>s. fst (setFromString lib (emethods sf) True (Zero (elemType (fval sf))) s))
               ins)\<rparr>,
         None)"
    if v: "values (unmarshalName sf) = Some ins" and ne: "ins \<noteq> []"
      and ok: "\<forall>s \<in> set ins.
          snd (setFromString lib (emethods sf) True (Zero (elemType (fval sf))) s) = None"
    using assms v ne by (simp add: unmarshalField_alt unmarshalElems_ok [OF ok])
  from enc entry dec show ?thesis by blast
qed

theorem list_field_order_witness:
  "Marshal noFloat (Struct [fld ''L'' ''l'' (VSlice (TInt 64) [VInt 64 3, VInt 64 1, VInt 64 2])])
     = ([''l'' \<mapsto> [''3'', ''1'', ''2'']], None)
   \<and> Unmarshal noFloat [''l'' \<mapsto> [''3'', ''1'', ''2'']]
        (PtrStruct [fld ''L'' ''l'' (VSlice (TInt 64) [VInt 64 9, VInt 64 8])])
     = (PtrStruct [fld ''L'' ''l'' (VSlice (TInt 64) [VInt 64 3, VInt 64 1, VInt 64 2])], None)"
proof -
  let ?l = "fld ''L'' ''l'' (VSlice (TInt 64) [VInt 64 3, VInt 64 1, VInt 64 2])"
  let ?old = "fld ''L'' ''l'' (VSlice (TInt 64) [VInt 64 9, VInt 64 8])"
  let ?vs = "[''l'' \<mapsto> [''3'', ''1'', ''2'']]"
  have tl: "parseTag ''l'' = (''l'', False)" by (simp add: parseTag_def)
  have f1: "FormatInt 1 = ''1''" by code_simp
  have f2: "FormatInt 2 = ''2''" by code_simp
  have f3: "FormatInt 3 = ''3''" by code_simp
  have p1: "ParseInt ''1'' 64 = Inr 1" by (simp add: ParseInt_def isDigit_def digitVal_def)
  have p2: "ParseInt ''2'' 64 = Inr 2" by (simp add: ParseInt_def isDigit_def digitVal_def)
  have p3: "ParseInt ''3'' 64 = Inr 3" by (simp add: ParseInt_def isDigit_def digitVal_def)
  have nl: "marshalName ?l = ''l''" by (simp add: marshalName_alt fld_def tl)
  have a1: "fst (parseTag (Tag ?l)) \<noteq> ''-''" by (simp add: fld_def tl)
  have a2: "exported ?l" by (simp add: fld_def)
  have a3: "Kind (fval ?l) = ''slice''" by (simp add: fld_def)
  have enc: "\<not> (snd (parseTag (Tag ?l)) \<and> IsZero (fval ?l))
      \<and> map (toString noFloat (emethods ?l) True) (elems (fval ?l)) = map Inr [''3'', ''1'', ''2'']"
    by (simp add: fld_def tl toString_def implementsMarshaler_def noMethods_def f1 f2 f3)
  have "marshalField noFloat False Map.empty ?l
      = (foldl (\<lambda>u s. Values_Add u (marshalName ?l) s) Map.empty [''3'', ''1'', ''2''], None)"
    using list_field_order [OF a1 a2 a3, of noFloat "[''3'', ''1'', ''2'']" False Map.empty] enc
    by blast
  then have m: "Marshal noFloat (Struct [?l]) = ([''l'' \<mapsto> [''3'', ''1'', ''2'']], None)"
    unfolding nl by (simp add: Marshal_def Values_Add_def)
  have b1: "fst (parseTag (Tag ?old)) \<noteq> ''-''" by (simp add: fld_def tl)
  have b2: "exported ?old" by (simp add: fld_def)
  have b3: "Kind (fval ?old) = ''slice''" by (simp add: fld_def)
  have s1: "setFromString noFloat noMethods True (VInt 64 0) ''1'' = (VInt 64 1, None)"
    by (simp add: setFromString_def implementsUnmarshaler_def noMethods_def p1)
  have s2: "setFromString noFloat noMethods True (VInt 64 0) ''2'' = (VInt 64 2, None)"
    by (simp add: setFromString_def implementsUnmarshaler_def noMethods_def p2)
  have s3: "setFromString noFloat noMethods True (VInt 64 0) ''3'' = (VInt 64 3, None)"
    by (simp add: setFromString_def implementsUnmarshaler_def noMethods_def p3)
  have dec: "?vs (unmarshalName ?old) = Some [''3'', ''1'', ''2''] \<and> [''3'', ''1'', ''2''] \<noteq> []
      \<and> (\<forall>s \<in> set [''3'', ''1'', ''2''].
            snd (setFromString noFloat (emethods ?old) True (Zero (elemType (fval ?old))) s) = None)"
    by (simp add: unmarshalName_alt fld_def tl s1 s2 s3)
  have "unmarshalField noFloat ?vs ?old
      = (?old\<lparr>fval := VSlice (elemType (fval ?old))
            (map (\<lambda>s. fst (setFromString noFloat (emethods ?old) True (Zero (elemType (fval ?old))) s))
               [''3'', ''1'', ''2''])\<rparr>,
         None)"
    using list_field_order [OF b1 b2 b3, of noFloat "[]" False Map.empty ?vs "[''3'', ''1'', ''2'']"] dec
    by blast
  then have u: "Unmarshal noFloat ?vs (PtrStruct [?old]) = (PtrStruct [?l], None)"
    by (simp add: Unmarshal_PtrStruct fld_def s1 s2 s3)
  from m u show ?thesis by simp
qed

subsection \<open>Digits\<close>

lemma digitChar_code: "d < 10 \<Longrightarrow> (of_char (digitChar d) :: nat) = 48 + d"
  by (simp add: digitChar_def)

lemma isDigit_digitChar: "d < 10 \<Longrightarrow> isDigit (digitChar d)"
  by (simp add: isDigit_def digitChar_code)

lemma digitVal_digitChar: "d < 10 \<Longrightarrow> digitVal (digitChar d) = d"
  by (simp add: digitVal_def digitChar_code)


lemma digits_all_digits: "list_all isDigit (digits n)"
proof (induction n rule: digits.induct)
  case (1 n)
  show ?case
  proof (cases "n < 10")
    case True
    then show ?thesis by (subst digits.simps) (simp add: isDigit_digitChar)
  next
    case False
    then show ?thesis using 1 by (subst digits.simps) (simp add: isDigit_digitChar)
  qed
qed



lemma digits_value: "foldl (\<lambda>x c. x * 10 + digitVal c) 0 (digits n) = n"
proof (induction n rule: digits.induct)
  case (1 n)
  show ?case
  proof (cases "n < 10")
    case True
    then show ?thesis by (subst digits.simps) (simp add: digitVal_digitChar)
  next
    case False
    then show ?thesis using 1 by (subst digits.simps) (simp add: digitVal_digitChar)
  qed
qed

lemma length_digits: "n < 10 ^ Suc k \<Longrightarrow> length (digits n) \<le> Suc k"
proof (induction n arbitrary: k rule: digits.induct)
  case (1 n)
  show ?case
  proof (cases "n < 10")
    case True
    then show ?thesis by (subst digits.simps) simp
  next
    case False
    with "1.prems" obtain j where k: "k = Suc j" by (cases k) auto
    have "n div 10 < 10 ^ Suc j" using "1.prems" k by (simp add: less_mult_imp_div_less)
    then have "length (digits (n div 10)) \<le> Suc j" using "1.IH" False by simp
    then show ?thesis using False k by (subst digits.simps) simp
  qed
qed



subsection \<open>Numbers and booleans: parsing what was formatted\<close>




subsection \<open>Timestamps: parsing what was formatted\<close>

lemma appendInt_nat:
  assumes "n < 10 ^ w" and "0 < w"
  shows "length (appendInt (int n) w) = w"
    and "list_all isDigit (appendInt (int n) w)"
    and "foldl (\<lambda>x c. x * 10 + digitVal c) 0 (appendInt (int n) w) = n"
proof -
  obtain k where w: "w = Suc k" using assms(2) by (cases w) auto
  have len: "length (digits n) \<le> w" using assms(1) unfolding w by (rule length_digits)
  have zero: "isDigit (CHR ''0'')" "digitVal (CHR ''0'') = 0"
    by (simp_all add: isDigit_def digitVal_def)
  have pad: "foldl (\<lambda>x c. x * 10 + digitVal c) 0 (replicate j (CHR ''0'')) = 0" for j
    by (induction j) (simp_all add: zero)
  show "length (appendInt (int n) w) = w" using len by (simp add: appendInt_def)
  show "list_all isDigit (appendInt (int n) w)"
    using digits_all_digits [of n] by (auto simp: appendInt_def zero list_all_iff)
  show "foldl (\<lambda>x c. x * 10 + digitVal c) 0 (appendInt (int n) w) = n"
    by (simp add: appendInt_def pad digits_value)
qed

lemma rangeUint_appendInt:
  assumes "n < 10 ^ w" and "0 < w" and "lo \<le> n" and "n \<le> hi"
  shows "rangeUint (appendInt (int n) w) lo hi = Some n"
  using appendInt_nat [OF assms(1,2)] assms(3,4) by (simp add: rangeUint_def Let_def)

lemma length2E:
  assumes "length xs = 2"
  obtains a b where "xs = [a, b]"
  using assms by (auto simp: length_Suc_conv numeral_2_eq_2)

lemma length4E:
  assumes "length xs = 4"
  obtains a b c d where "xs = [a, b, c, d]"
proof -
  from assms have "length xs = Suc (Suc (Suc (Suc 0)))" by simp
  then show ?thesis using that by (auto simp: length_Suc_conv)
qed

lemma parseZone_shape:
  assumes "length HH = 2" and "length MM = 2"
    and "rangeUint HH 0 23 = Some hr" and "rangeUint MM 0 59 = Some mm"
    and "sg = CHR ''+'' \<or> sg = CHR ''-''"
  shows "parseZone (sg # HH @ '':'' @ MM)
           = Some (if sg = CHR ''-'' then - int ((hr * 60 + mm) * 60) else int ((hr * 60 + mm) * 60))"
proof -
  obtain a b where hh: "HH = [a, b]" using assms(1) by (rule length2E)
  obtain c d where mm: "MM = [c, d]" using assms(2) by (rule length2E)
  show ?thesis
    using assms(3,4,5) unfolding hh mm by (auto simp: parseZone_def)
qed

lemma Parse_RFC3339_layout:
  assumes len: "length Y = 4" "length Mo = 2" "length D = 2" "length H = 2" "length Mi = 2"
      "length S = 2"
    and y: "rangeUint Y 0 9999 = Some y" and mo: "rangeUint Mo 1 12 = Some mo"
    and d: "rangeUint D 1 (daysIn mo y) = Some d" and h: "rangeUint H 0 23 = Some h"
    and mi: "rangeUint Mi 0 59 = Some mi" and sc: "rangeUint S 0 59 = Some sc"
    and z: "parseZone z = Some off" and nofrac: "z \<noteq> [] \<and> z ! 0 \<noteq> CHR ''.''"
  shows "Parse_RFC3339 (Y @ ''-'' @ Mo @ ''-'' @ D @ ''T'' @ H @ '':'' @ Mi @ '':'' @ S @ z)
           = Inr \<lparr>year = int y, month = mo, day = d, hour = h, minute = mi, second = sc,
                  nsec = 0, offset = off\<rparr>"
proof -
  obtain y1 y2 y3 y4 where Y: "Y = [y1, y2, y3, y4]" using len(1) by (rule length4E)
  obtain m1 m2 where Mo: "Mo = [m1, m2]" using len(2) by (rule length2E)
  obtain d1 d2 where D: "D = [d1, d2]" using len(3) by (rule length2E)
  obtain h1 h2 where H: "H = [h1, h2]" using len(4) by (rule length2E)
  obtain i1 i2 where Mi: "Mi = [i1, i2]" using len(5) by (rule length2E)
  obtain s1 s2 where S: "S = [s1, s2]" using len(6) by (rule length2E)
  show ?thesis
    using y mo d h mi sc z nofrac unfolding Y Mo D H Mi S
    by (simp add: Parse_RFC3339_def Let_def)
qed

lemma parseZone_formatZone:
  assumes "off mod 60 = 0" and "\<bar>off\<bar> < 86400"
  shows "parseZone (formatZone off) = Some off
       \<and> formatZone off \<noteq> [] \<and> formatZone off ! 0 \<noteq> CHR ''.''"
proof (cases "off = 0")
  case True
  then show ?thesis by (simp add: formatZone_def parseZone_def)
next
  case False
  define m where "m = nat (\<bar>off\<bar> div 60)"
  define sg where "sg = (if off < 0 then CHR ''-'' else CHR ''+'')"
  have "60 dvd off"
    using assms(1) by (simp add: dvd_eq_mod_eq_0)
  then have dv: "60 dvd \<bar>off\<bar>"
    by (simp only: dvd_abs_iff)
  have nn: "0 \<le> \<bar>off\<bar> div 60"
    by (simp add: pos_imp_zdiv_nonneg_iff)
  have im: "int m = \<bar>off\<bar> div 60"
    unfolding m_def using nn by (rule nat_0_le)
  have m60: "int m * 60 = \<bar>off\<bar>"
    unfolding im using dv by (rule dvd_div_mult_self)
  have "int m * 60 < 86400" using assms(2) m60 by simp
  then have "int m < 1440" by simp
  then have mlt: "m < 1440" by simp
  have mpos: "0 < m" using False m60 by (cases m) auto
  have zone: "(if off < 0 then - ((- off) div 60) else off div 60) = (if off < 0 then - int m else int m)"
    by (simp add: m_def)
  have az: "\<bar>if off < 0 then - int m else int m\<bar> = int m" by simp
  have hh: "int m div 60 = int (m div 60)" and mm: "int m mod 60 = int (m mod 60)"
    by (simp_all add: zdiv_int zmod_int)
  have neg: "((if off < 0 then - int m else int m) < 0) = (off < 0)"
    using mpos by simp
  have fz: "formatZone off = sg # appendInt (int (m div 60)) 2 @ '':'' @ appendInt (int (m mod 60)) 2"
    using False unfolding formatZone_def zone Let_def az hh mm neg sg_def by simp
  have hr: "m div 60 < 10 ^ 2" "m div 60 \<le> 23" using mlt by simp_all
  have m6: "m mod 60 < 60" by simp
  have mn: "m mod 60 < 10 ^ 2" "m mod 60 \<le> 59"
    using m6 by simp_all
  have l1: "length (appendInt (int (m div 60)) 2) = 2"
    by (rule appendInt_nat(1) [OF hr(1)]) simp
  have l2: "length (appendInt (int (m mod 60)) 2) = 2"
    by (rule appendInt_nat(1) [OF mn(1)]) simp
  have r1: "rangeUint (appendInt (int (m div 60)) 2) 0 23 = Some (m div 60)"
    by (rule rangeUint_appendInt [OF hr(1) _ _ hr(2)]) simp_all
  have r2: "rangeUint (appendInt (int (m mod 60)) 2) 0 59 = Some (m mod 60)"
    by (rule rangeUint_appendInt [OF mn(1) _ _ mn(2)]) simp_all
  have sgs: "sg = CHR ''+'' \<or> sg = CHR ''-''" by (simp add: sg_def)
  have total: "(m div 60 * 60 + m mod 60) * 60 = m * 60" by simp
  have val: "(if sg = CHR ''-'' then - int (m * 60) else int (m * 60)) = off"
    using m60 by (simp add: sg_def)
  have "parseZone (formatZone off) = Some off"
    unfolding fz parseZone_shape [OF l1 l2 r1 r2 sgs] total val ..
  moreover have "formatZone off \<noteq> [] \<and> formatZone off ! 0 \<noteq> CHR ''.''"
    unfolding fz by (simp add: sg_def)
  ultimately show ?thesis by simp
qed

lemma daysIn_le: "daysIn m y \<le> 31"
  by (simp add: daysIn_def)

lemma Parse_Format_RFC3339:
  assumes "rfc3339Time t"
  shows "Parse_RFC3339 (Format_RFC3339 t) = Inr (t\<lparr>nsec := 0\<rparr>)"
proof -
  define y where "y = nat (year t)"
  have yy: "year t = int y" and ylt: "y < 10 ^ 4" and y9: "y \<le> 9999"
    using assms unfolding rfc3339Time_def y_def by auto
  have b0: "1 \<le> month t" "month t \<le> 12" "1 \<le> day t" "day t \<le> daysIn (month t) y"
      "hour t \<le> 23" "minute t \<le> 59" "second t \<le> 59"
    using assms unfolding rfc3339Time_def y_def by auto
  have d31: "day t \<le> 31" using b0(4) daysIn_le [of "month t" y] by (rule le_trans)
  have b: "month t < 10 ^ 2" "1 \<le> month t" "month t \<le> 12"
      "day t < 10 ^ 2" "1 \<le> day t" "day t \<le> daysIn (month t) y"
      "hour t < 10 ^ 2" "hour t \<le> 23" "minute t < 10 ^ 2" "minute t \<le> 59"
      "second t < 10 ^ 2" "second t \<le> 59"
    using b0 d31 by simp_all
  have z: "parseZone (formatZone (offset t)) = Some (offset t)"
    and nofrac: "formatZone (offset t) \<noteq> [] \<and> formatZone (offset t) ! 0 \<noteq> CHR ''.''"
    using parseZone_formatZone [of "offset t"] assms by (simp_all add: rfc3339Time_def)
  have "Parse_RFC3339 (Format_RFC3339 t)
      = Inr \<lparr>year = int y, month = month t, day = day t, hour = hour t, minute = minute t,
             second = second t, nsec = 0, offset = offset t\<rparr>"
    unfolding Format_RFC3339_def yy
  proof (rule Parse_RFC3339_layout)
    show "length (appendInt (int y) 4) = 4" by (rule appendInt_nat(1) [OF ylt]) simp
    show "length (appendInt (int (month t)) 2) = 2" by (rule appendInt_nat(1) [OF b(1)]) simp
    show "length (appendInt (int (day t)) 2) = 2" by (rule appendInt_nat(1) [OF b(4)]) simp
    show "length (appendInt (int (hour t)) 2) = 2" by (rule appendInt_nat(1) [OF b(7)]) simp
    show "length (appendInt (int (minute t)) 2) = 2" by (rule appendInt_nat(1) [OF b(9)]) simp
    show "length (appendInt (int (second t)) 2) = 2" by (rule appendInt_nat(1) [OF b(11)]) simp
    show "rangeUint (appendInt (int y) 4) 0 9999 = Some y"
      by (rule rangeUint_appendInt [OF ylt _ _ y9]) simp_all
    show "rangeUint (appendInt (int (month t)) 2) 1 12 = Some (month t)"
      by (rule rangeUint_appendInt [OF b(1) _ b(2) b(3)]) simp
    show "rangeUint (appendInt (int (day t)) 2) 1 (daysIn (month t) y) = Some (day t)"
      by (rule rangeUint_appendInt [OF b(4) _ b(5) b(6)]) simp
    show "rangeUint (appendInt (int (hour t)) 2) 0 23 = Some (hour t)"
      by (rule rangeUint_appendInt [OF b(7) _ _ b(8)]) simp_all
    show "rangeUint (appendInt (int (minute t)) 2) 0 59 = Some (minute t)"
      by (rule rangeUint_appendInt [OF b(9) _ _ b(10)]) simp_all
    show "rangeUint (appendInt (int (second t)) 2) 0 59 = Some (second t)"
      by (rule rangeUint_appendInt [OF b(11) _ _ b(12)]) simp_all
    show "parseZone (formatZone (offset t)) = Some (offset t)" by (rule z)
    show "formatZone (offset t) \<noteq> [] \<and> formatZone (offset t) ! 0 \<noteq> CHR ''.''" by (rule nofrac)
  qed
  moreover have "\<lparr>year = int y, month = month t, day = day t, hour = hour t, minute = minute t,
             second = second t, nsec = 0, offset = offset t\<rparr> = t\<lparr>nsec := 0\<rparr>"
    using yy by simp
  ultimately show ?thesis by simp
qed

subsection \<open>Evaluating the formatters on numerals\<close>

lemma digitChar_table:
  "digitChar 0 = CHR ''0''" "digitChar 1 = CHR ''1''" "digitChar 2 = CHR ''2''"
  "digitChar 3 = CHR ''3''" "digitChar 4 = CHR ''4''" "digitChar 5 = CHR ''5''"
  "digitChar 6 = CHR ''6''" "digitChar 7 = CHR ''7''" "digitChar 8 = CHR ''8''"
  "digitChar 9 = CHR ''9''" "digitChar (Suc 0) = CHR ''1''"
  by code_simp+

subsection \<open>Timestamps\<close>

text \<open>
  Claim C3, as amended. For every timestamp that RFC 3339 can hold (a year of four
  digits, a zone offset of whole minutes below 24 hours), of a type without a
  \<^verbatim>\<open>MarshalQueryParam\<close> method, encoding succeeds with a text that the RFC 3339 parser
  reads back as the same date, clock and zone offset with the fraction of a second at
  zero; and the text is the same whatever nanoseconds the timestamp carries. So the
  text is RFC 3339 with the zone offset, to the whole second: the layout
  \<^verbatim>\<open>time.RFC3339\<close> has no field for the fraction (\<^verbatim>\<open>time.RFC3339Nano\<close> has).
\<close>

theorem timestamp_encoding:
  assumes "MarshalQueryParam m = None" and "rfc3339Time t"
  shows "\<exists>s. toString lib m a (VTime t) = Inr s
           \<and> Parse_RFC3339 s = Inr (t\<lparr>nsec := 0\<rparr>)
           \<and> toString lib m a (VTime (t\<lparr>nsec := n\<rparr>)) = Inr s"
proof -
  have enc: "toString lib m a (VTime u) = Inr (Format_RFC3339 u)" for u
    using assms(1) by (simp add: toString_def implementsMarshaler_def)
  have same: "Format_RFC3339 (t\<lparr>nsec := n\<rparr>) = Format_RFC3339 t"
    by (simp add: Format_RFC3339_def)
  have "Parse_RFC3339 (Format_RFC3339 t) = Inr (t\<lparr>nsec := 0\<rparr>)"
    using assms(2) by (rule Parse_Format_RFC3339)
  then show ?thesis using enc same by simp
qed

theorem timestamp_encoding_witness:
  "toString noFloat noMethods False
     (VTime \<lparr>year = 2024, month = 1, day = 2, hour = 15, minute = 4, second = 5,
             nsec = 500000000, offset = - 19800\<rparr>)
     = Inr ''2024-01-02T15:04:05-05:30''
   \<and> Parse_RFC3339 ''2024-01-02T15:04:05-05:30''
     = Inr \<lparr>year = 2024, month = 1, day = 2, hour = 15, minute = 4, second = 5,
             nsec = 0, offset = - 19800\<rparr>"
proof -
  let ?t = "\<lparr>year = 2024, month = 1, day = 2, hour = 15, minute = 4, second = 5,
             nsec = 500000000, offset = - 19800\<rparr>"
  have m: "MarshalQueryParam noMethods = None" by (simp add: noMethods_def)
  have ok: "rfc3339Time ?t" by (simp add: rfc3339Time_def daysIn_def)
  have f: "Format_RFC3339 ?t = ''2024-01-02T15:04:05-05:30''"
    by (simp add: Format_RFC3339_def appendInt_def formatZone_def digits.simps digitChar_table)
  have e: "toString noFloat noMethods False (VTime ?t) = Inr ''2024-01-02T15:04:05-05:30''"
    using f by (simp add: toString_def implementsMarshaler_def noMethods_def)
  obtain s where s: "toString noFloat noMethods False (VTime ?t) = Inr s"
      "Parse_RFC3339 s = Inr (?t\<lparr>nsec := 0\<rparr>)"
    using timestamp_encoding [OF m ok, of noFloat False 0] by blast
  from s(1) e have "s = ''2024-01-02T15:04:05-05:30''" by simp
  with s(2) e show ?thesis by simp
qed

text \<open>
  The claim as first stated (a timestamp carrying sub-second precision keeps it in the
  encoded string) fails: half a second past 15:04:05 encodes as 15:04:05.
\<close>

theorem timestamp_drops_fraction_counterexample:
  "toString noFloat noMethods False
     (VTime \<lparr>year = 2024, month = 1, day = 2, hour = 15, minute = 4, second = 5,
             nsec = 500000000, offset = 0\<rparr>)
   = Inr ''2024-01-02T15:04:05Z''"
proof -
  have "Format_RFC3339 \<lparr>year = 2024, month = 1, day = 2, hour = 15, minute = 4, second = 5,
             nsec = 500000000, offset = 0\<rparr> = ''2024-01-02T15:04:05Z''"
    by (simp add: Format_RFC3339_def appendInt_def formatZone_def digits.simps digitChar_table)
  then show ?thesis
    by (simp add: toString_def implementsMarshaler_def noMethods_def)
qed

subsection \<open>Decoding what was encoded\<close>










subsection \<open>Round trip\<close>




end
